theory Spec2Isabelle
  imports Complex_Main
begin

unbundle bit_operations_syntax

section \<open>Python values and exceptions\<close>

text \<open>
  The decoder of \<^verbatim>\<open>basicpng.py\<close> is Python 3 (it uses f-strings and
  \<^verbatim>\<open>int.from_bytes\<close>). Python integers are unbounded, so they are \<open>int\<close>;
  a \<^verbatim>\<open>bytes\<close> or \<^verbatim>\<open>bytearray\<close> object is an \<open>int list\<close> whose elements lie
  in \<open>0..255\<close>. Every exception the code can raise is a value of \<open>error\<close>, and a function
  that can raise returns \<open>error + 'a\<close> with \<open>Inl\<close> for the exception.
\<close>

datatype error =
    IndexError
  | KeyError
  | TypeError
  | ZeroDivisionError
  | UnicodeDecodeError
  | ZlibError
  | NotPng
  | UnsupportedCompression
  | UnsupportedFilterMethod
  | UnsupportedInterlace
  | NonStandardFilterType int
  | MissingPalette

text \<open>Sequencing of computations that may raise: the first exception wins.\<close>

definition ebind :: "error + 'a \<Rightarrow> ('a \<Rightarrow> error + 'b) \<Rightarrow> error + 'b" where
  "ebind m f = (case m of Inl e \<Rightarrow> Inl e | Inr v \<Rightarrow> f v)"

lemma ebind_cong [fundef_cong]:
  "m = m' \<Longrightarrow> (\<And>v. m' = Inr v \<Longrightarrow> f v = g v) \<Longrightarrow> ebind m f = ebind m' g"
  by (cases m') (simp_all add: ebind_def)

fun emap :: "('a \<Rightarrow> error + 'b) \<Rightarrow> 'a list \<Rightarrow> error + 'b list" where
  "emap f [] = Inr []"
| "emap f (x # xs) = ebind (f x) (\<lambda>v. ebind (emap f xs) (\<lambda>vs. Inr (v # vs)))"

text \<open>
  \<^verbatim>\<open>xs[i]\<close>: a negative index counts from the end, an index outside
  \<open>-len..len-1\<close> raises \<^verbatim>\<open>IndexError\<close>.
\<close>

definition py_index :: "'a list \<Rightarrow> int \<Rightarrow> error + 'a" where
  "py_index xs i =
     (let n = int (length xs) in
      if 0 \<le> i \<and> i < n then Inr (xs ! nat i)
      else if - n \<le> i \<and> i < 0 then Inr (xs ! nat (i + n))
      else Inl IndexError)"

text \<open>\<^verbatim>\<open>xs[i] = v\<close> with the same index rule.\<close>

definition py_store :: "'a list \<Rightarrow> int \<Rightarrow> 'a \<Rightarrow> error + 'a list" where
  "py_store xs i v =
     (let n = int (length xs) in
      if 0 \<le> i \<and> i < n then Inr (xs[nat i := v])
      else if - n \<le> i \<and> i < 0 then Inr (xs[nat (i + n) := v])
      else Inl IndexError)"

text \<open>
  \<^verbatim>\<open>xs[a:b]\<close> and \<^verbatim>\<open>xs[a:]\<close>: a negative bound has the length added, then
  both bounds are clipped to \<open>0..len\<close>; a slice never raises.
\<close>

definition py_bound :: "nat \<Rightarrow> int \<Rightarrow> nat" where
  "py_bound n a = (if a < 0 then nat (max (a + int n) 0) else min (nat a) n)"

definition py_slice :: "'a list \<Rightarrow> int \<Rightarrow> int \<Rightarrow> 'a list" where
  "py_slice xs a b =
     (let lo = py_bound (length xs) a; hi = py_bound (length xs) b
      in take (hi - lo) (drop lo xs))"

definition py_slice_from :: "'a list \<Rightarrow> int \<Rightarrow> 'a list" where
  "py_slice_from xs a = drop (py_bound (length xs) a) xs"

text \<open>
  A Python number is an \<^verbatim>\<open>int\<close> or a \<^verbatim>\<open>float\<close>. The operator \<^verbatim>\<open>/\<close> is true
  division: its result is a float even when both operands are integers, and
  \<^verbatim>\<open>range\<close> raises \<^verbatim>\<open>TypeError\<close> on a float bound. Only the kind of the number
  decides that, so a float carries no value here.
\<close>

datatype pynum = PyInt int | PyFloat

definition py_truediv :: "int \<Rightarrow> int \<Rightarrow> error + pynum" where
  "py_truediv a b = (if b = 0 then Inl ZeroDivisionError else Inr PyFloat)"

definition py_range0 :: "pynum \<Rightarrow> error + int list" where
  "py_range0 stop = (case stop of PyInt n \<Rightarrow> Inr [0..n - 1] | PyFloat \<Rightarrow> Inl TypeError)"

text \<open>
  \<^verbatim>\<open>range(0, n)\<close> on an integer \<open>n\<close> is the list \<open>[0..n - 1]\<close> (empty when
  \<open>n \<le> 0\<close>); the loops below run over such lists.
\<close>

text \<open>\<^verbatim>\<open>int.from_bytes(bs, "big")\<close>; the empty sequence gives 0.\<close>

definition from_bytes_big :: "int list \<Rightarrow> int" where
  "from_bytes_big bs = foldl (\<lambda>acc b. acc * 256 + b) 0 bs"

section \<open>The Paeth predictor\<close>

definition PaethPredictor :: "int \<Rightarrow> int \<Rightarrow> int \<Rightarrow> int" where
  "PaethPredictor a b c =
     (let p = a + b - c;
          pa = \<bar>p - a\<bar>;
          pb = \<bar>p - b\<bar>;
          pc = \<bar>p - c\<bar>
      in if pa \<le> pb \<and> pa \<le> pc then a
         else if pb \<le> pc then b
         else c)"

text \<open>
  The predictor as the specification words it: the three distances to
  \<open>p = a + b - c\<close> are computed on unbounded integers; \<open>a\<close> is returned when its distance
  is the unique or a tied minimum of the three, otherwise \<open>b\<close> when its distance is at
  most that of \<open>c\<close>, otherwise \<open>c\<close>.
\<close>

definition paeth_spec :: "int \<Rightarrow> int \<Rightarrow> int \<Rightarrow> int" where
  "paeth_spec a b c =
     (let p = a + b - c;
          da = \<bar>p - a\<bar>; db = \<bar>p - b\<bar>; dc = \<bar>p - c\<bar>
      in if da = Min {da, db, dc} then a
         else if db \<le> dc then b
         else c)"

section \<open>The bit unpacker\<close>

text \<open>
  \<^verbatim>\<open>Clamp(x)\<close> first takes \<^verbatim>\<open>int(round(x))\<close>, then clips to \<open>0..255\<close>. The
  definition is the clipping, on the rounded integer (on an \<^verbatim>\<open>int\<close> argument the
  rounding is the identity).
\<close>

definition Clamp :: "int \<Rightarrow> int" where
  "Clamp x = (if x \<ge> 0 \<and> x \<le> 255 then x else if x < 0 then 0 else 255)"

text \<open>
  \<^verbatim>\<open>GetNormalizer(bits_per_channel, is_indexed)\<close>. Both parameters are untyped in
  the source: \<open>is_indexed\<close> is tested for truth (a non-zero integer is true) and
  \<open>bits_per_channel\<close> is used as a shift count, so both are integers here, a Python
  \<^verbatim>\<open>bool\<close> being the integer 0 or 1. The floating-point expression
  \<^verbatim>\<open>x / float((1 << bits_per_channel) - 1) * 255.0\<close>, rounded by \<^verbatim>\<open>round\<close>, is the
  parameter \<open>fscale bits_per_channel x\<close> (with the exceptions it can raise), so that
  nothing below depends on how floats round.
\<close>

definition GetNormalizer ::
  "(int \<Rightarrow> int \<Rightarrow> error + int) \<Rightarrow> int \<Rightarrow> int \<Rightarrow> (int \<Rightarrow> error + int)" where
  "GetNormalizer fscale bits_per_channel is_indexed =
     (if is_indexed \<noteq> 0 then (\<lambda>x. Inr x)
      else (\<lambda>x. ebind (fscale bits_per_channel x) (\<lambda>r. Inr (Clamp r))))"

text \<open>The samples one packed byte holds, most significant group first.\<close>

definition groups4 :: "int \<Rightarrow> int list" where
  "groups4 bb = [drop_bit 4 (bb AND 0xF0), drop_bit 0 (bb AND 0x0F)]"

definition groups2 :: "int \<Rightarrow> int list" where
  "groups2 bb = [drop_bit 6 (bb AND 0xC0), drop_bit 4 (bb AND 0x30),
                 drop_bit 2 (bb AND 0x0C), drop_bit 0 (bb AND 0x03)]"

definition groups1 :: "int \<Rightarrow> int list" where
  "groups1 bb = [drop_bit 7 (bb AND 0x80), drop_bit 6 (bb AND 0x40),
                 drop_bit 5 (bb AND 0x20), drop_bit 4 (bb AND 0x10),
                 drop_bit 3 (bb AND 0x08), drop_bit 2 (bb AND 0x04),
                 drop_bit 1 (bb AND 0x02), drop_bit 0 (bb AND 0x01)]"

text \<open>
  The body of the 16-bit loop, for the indices \<^verbatim>\<open>range\<close> yields: the low byte
  \<open>b2\<close> decides whether the high byte is rounded up.
\<close>

fun explode16 :: "int list \<Rightarrow> int list \<Rightarrow> error + int list" where
  "explode16 data [] = Inr []"
| "explode16 data (i # is) =
     ebind (py_index data (2 * i + 1)) (\<lambda>b2.
     ebind (py_index data (2 * i + 0)) (\<lambda>hi.
     ebind (explode16 data is) (\<lambda>rest.
       Inr ((if b2 < 128 then hi else Clamp (hi + 1)) # rest))))"

text \<open>
  \<^verbatim>\<open>ExplodeBytes(data, bits_per_channel, is_indexed)\<close>. The 16-bit branch iterates
  over \<^verbatim>\<open>range(0, len(data) / 2)\<close>, whose bound is a true division. The sub-byte
  branches call \<^verbatim>\<open>GetNormalizer(is_indexed, 4)\<close> (and \<open>2\<close>, \<open>1\<close>): the flag is
  passed in the place of the bit count and the bit count in the place of the flag.
  Any other bit depth falls through every branch and returns the empty \<open>rval\<close>.
\<close>

definition ExplodeBytes ::
  "(int \<Rightarrow> int \<Rightarrow> error + int) \<Rightarrow> int list \<Rightarrow> int \<Rightarrow> bool \<Rightarrow> error + int list" where
  "ExplodeBytes fscale data bits_per_channel is_indexed =
     (if bits_per_channel = 8 then Inr data
      else if bits_per_channel = 16 then
        ebind (py_truediv (int (length data)) 2) (\<lambda>stop.
        ebind (py_range0 stop) (\<lambda>is. explode16 data is))
      else if bits_per_channel = 4 then
        emap (GetNormalizer fscale (of_bool is_indexed) 4) (concat (map groups4 data))
      else if bits_per_channel = 2 then
        emap (GetNormalizer fscale (of_bool is_indexed) 2) (concat (map groups2 data))
      else if bits_per_channel = 1 then
        emap (GetNormalizer fscale (of_bool is_indexed) 1) (concat (map groups1 data))
      else Inr [])"

section \<open>The decoder object\<close>

text \<open>
  The attributes of a \<^verbatim>\<open>PngDecode\<close> instance. \<^verbatim>\<open>filter\<close> and \<^verbatim>\<open>interlace\<close>
  exist only once \<^verbatim>\<open>IHDR\<close> has run (\<open>None\<close> before). \<^verbatim>\<open>palette\<close> is \<open>None\<close> or a
  list of list objects, one per entry.
\<close>

record decoder =
  w :: int
  h :: int
  color_type :: int
  num_channels :: int
  bit_depth :: int
  compression :: int
  filter_method :: "int option"
  interlace :: "int option"
  rgba :: "int list"
  idat_data :: "int list"
  palette :: "int list list option"

definition init_state :: decoder where
  "init_state =
     \<lparr>w = 0, h = 0, color_type = 0, num_channels = 0, bit_depth = 0, compression = 0,
      filter_method = None, interlace = None, rgba = [], idat_data = [], palette = None\<rparr>"

section \<open>Chunk handlers\<close>

definition CHANNELS :: "int \<rightharpoonup> int" where
  "CHANNELS = [0 \<mapsto> 1, 2 \<mapsto> 3, 3 \<mapsto> 1, 4 \<mapsto> 2, 6 \<mapsto> 4]"

text \<open>
  \<^verbatim>\<open>IHDR\<close>: the two slices never raise, the five single-byte reads raise
  \<^verbatim>\<open>IndexError\<close> on a short payload, an unknown colour type raises \<^verbatim>\<open>KeyError\<close>,
  then the three method checks follow in the order of the source. An exception here
  ends the construction, so the attributes assigned before it are not observed.
\<close>

definition IHDR :: "decoder \<Rightarrow> int list \<Rightarrow> error + decoder" where
  "IHDR s bchd =
     (let w' = from_bytes_big (py_slice bchd 0 4);
          h' = from_bytes_big (py_slice bchd 4 8)
      in ebind (py_index bchd 8) (\<lambda>bd.
         ebind (py_index bchd 9) (\<lambda>ct.
         ebind (py_index bchd 10) (\<lambda>cm.
         ebind (py_index bchd 11) (\<lambda>fm.
         ebind (py_index bchd 12) (\<lambda>il.
           case CHANNELS ct of
             None \<Rightarrow> Inl KeyError
           | Some nc \<Rightarrow>
               if cm \<noteq> 0 then Inl UnsupportedCompression
               else if fm \<noteq> 0 then Inl UnsupportedFilterMethod
               else if il \<noteq> 0 then Inl UnsupportedInterlace
               else Inr (s\<lparr>w := w', h := h', bit_depth := bd, color_type := ct,
                           compression := cm, filter_method := Some fm,
                           interlace := Some il, num_channels := nc\<rparr>)))))))"

definition IDAT :: "decoder \<Rightarrow> int list \<Rightarrow> error + decoder" where
  "IDAT s bchd = Inr (s\<lparr>idat_data := idat_data s @ bchd\<rparr>)"

text \<open>
  \<^verbatim>\<open>PLTE\<close>: \<open>sz\<close> is the floor of a third of the payload length; the only guard is
  \<open>sz == 0 or sz > 255\<close>. Each entry is a fresh three-element list.
\<close>

definition plte_entry :: "int list \<Rightarrow> int \<Rightarrow> error + int list" where
  "plte_entry bchd i =
     ebind (py_index bchd (3 * i + 0)) (\<lambda>r.
     ebind (py_index bchd (3 * i + 1)) (\<lambda>g.
     ebind (py_index bchd (3 * i + 2)) (\<lambda>b. Inr [r, g, b])))"

definition PLTE :: "decoder \<Rightarrow> int list \<Rightarrow> error + decoder" where
  "PLTE s bchd =
     (let sz = int (length bchd) div 3 in
      if sz = 0 \<or> sz > 255 then Inr s
      else ebind (emap (plte_entry bchd) [0..sz - 1])
             (\<lambda>entries. Inr (s\<lparr>palette := Some entries\<rparr>)))"

text \<open>
  \<^verbatim>\<open>IEND\<close> raises \<^verbatim>\<open>EndReading\<close> without touching the object. The read loop
  catches that exception, so \<open>EndReading\<close> is an outcome of a handler, not an error of
  the construction.
\<close>

datatype 'a flow = Next 'a | EndReading

definition IEND :: "decoder \<Rightarrow> int list \<Rightarrow> error + decoder flow" where
  "IEND s bchd = Inr EndReading"

section \<open>Chunk dispatch\<close>

text \<open>
  \<^verbatim>\<open>scht = bcht.decode('utf-8')\<close> raises \<^verbatim>\<open>UnicodeDecodeError\<close> unless the bytes
  are well-formed UTF-8 (no overlong form, no surrogate, nothing above U+10FFFF, no
  truncated sequence).
\<close>

definition cont :: "int \<Rightarrow> bool" where
  "cont b = (0x80 \<le> b \<and> b \<le> 0xBF)"

fun utf8_valid :: "int list \<Rightarrow> bool" where
  "utf8_valid [] = True"
| "utf8_valid (b0 # bs) =
     (if b0 < 0x80 then utf8_valid bs
      else if 0xC2 \<le> b0 \<and> b0 \<le> 0xDF then
        (case bs of b1 # r \<Rightarrow> cont b1 \<and> utf8_valid r | _ \<Rightarrow> False)
      else if 0xE0 \<le> b0 \<and> b0 \<le> 0xEF then
        (case bs of
           b1 # b2 # r \<Rightarrow>
             (if b0 = 0xE0 then 0xA0 \<le> b1 \<and> b1 \<le> 0xBF
              else if b0 = 0xED then 0x80 \<le> b1 \<and> b1 \<le> 0x9F
              else cont b1)
             \<and> cont b2 \<and> utf8_valid r
         | _ \<Rightarrow> False)
      else if 0xF0 \<le> b0 \<and> b0 \<le> 0xF4 then
        (case bs of
           b1 # b2 # b3 # r \<Rightarrow>
             (if b0 = 0xF0 then 0x90 \<le> b1 \<and> b1 \<le> 0xBF
              else if b0 = 0xF4 then 0x80 \<le> b1 \<and> b1 \<le> 0x8F
              else cont b1)
             \<and> cont b2 \<and> cont b3 \<and> utf8_valid r
         | _ \<Rightarrow> False)
      else False)"

text \<open>
  \<^verbatim>\<open>scht.upper() in dir(self)\<close>. The names of the object that consist of upper-case
  letters only are the four handlers \<^verbatim>\<open>IHDR\<close>, \<^verbatim>\<open>IDAT\<close>, \<^verbatim>\<open>PLTE\<close>,
  \<^verbatim>\<open>IEND\<close>; every other attribute or method has a lower-case letter or an
  underscore and is never the result of \<^verbatim>\<open>upper()\<close>. On ASCII text
  \<^verbatim>\<open>upper()\<close> maps \<open>a..z\<close> to \<open>A..Z\<close>. An identifier of at most four bytes with a
  non-ASCII character decodes to at most three characters, and no character outside
  ASCII upper-cases to letters that complete one of the four names, so such an
  identifier finds no handler.
\<close>

datatype handler = H_IHDR | H_IDAT | H_PLTE | H_IEND

definition handler_name :: "handler \<Rightarrow> int list" where
  "handler_name hnd =
     (case hnd of
        H_IHDR \<Rightarrow> [73, 72, 68, 82]
      | H_IDAT \<Rightarrow> [73, 68, 65, 84]
      | H_PLTE \<Rightarrow> [80, 76, 84, 69]
      | H_IEND \<Rightarrow> [73, 69, 78, 68])"

definition ascii_upper :: "int \<Rightarrow> int" where
  "ascii_upper b = (if 97 \<le> b \<and> b \<le> 122 then b - 32 else b)"

definition handler_named :: "int list \<Rightarrow> handler option" where
  "handler_named u =
     (if u = handler_name H_IHDR then Some H_IHDR
      else if u = handler_name H_IDAT then Some H_IDAT
      else if u = handler_name H_PLTE then Some H_PLTE
      else if u = handler_name H_IEND then Some H_IEND
      else None)"

definition find_handler :: "int list \<Rightarrow> error + handler option" where
  "find_handler bcht =
     (if \<not> utf8_valid bcht then Inl UnicodeDecodeError
      else if list_ex (\<lambda>b. 0x80 \<le> b) bcht then Inr None
      else Inr (handler_named (map ascii_upper bcht)))"

text \<open>
  \<^verbatim>\<open>getattr(self, scht.upper())(bchd)\<close> when a handler is found; otherwise the
  chunk has no effect.
\<close>

definition call_handler :: "handler \<Rightarrow> decoder \<Rightarrow> int list \<Rightarrow> error + decoder flow" where
  "call_handler hnd s bchd =
     (case hnd of
        H_IHDR \<Rightarrow> ebind (IHDR s bchd) (\<lambda>s'. Inr (Next s'))
      | H_IDAT \<Rightarrow> ebind (IDAT s bchd) (\<lambda>s'. Inr (Next s'))
      | H_PLTE \<Rightarrow> ebind (PLTE s bchd) (\<lambda>s'. Inr (Next s'))
      | H_IEND \<Rightarrow> IEND s bchd)"

definition dispatch :: "decoder \<Rightarrow> int list \<Rightarrow> int list \<Rightarrow> error + decoder flow" where
  "dispatch s bcht bchd =
     ebind (find_handler bcht) (\<lambda>found.
       case found of
         None \<Rightarrow> Inr (Next s)
       | Some hnd \<Rightarrow> call_handler hnd s bchd)"

section \<open>The scanline defilterer\<close>

text \<open>
  The four filter loops. \<open>buffer\<close> and \<open>prior\<close> carry eight leading zero bytes in the
  Sub, Average and Paeth branches, so byte \<open>i\<close> of the row is at index \<open>i + 8\<close> and its
  left neighbour at \<open>i + 8 - bpp\<close>; \<open>out\<close> is \<^verbatim>\<open>self.rgba\<close>. The operands are read
  in the order Python evaluates them.
\<close>

fun sub_loop :: "int \<Rightarrow> int list \<Rightarrow> int list \<Rightarrow> int list \<Rightarrow> error + int list" where
  "sub_loop bpp buffer out [] = Inr out"
| "sub_loop bpp buffer out (i # is) =
     ebind (py_index buffer (i + 8)) (\<lambda>x.
     ebind (py_index buffer (i + 8 - bpp)) (\<lambda>a.
     ebind (py_store buffer (i + 8) ((x + a) mod 256)) (\<lambda>buffer'.
       sub_loop bpp buffer' (out @ [(x + a) mod 256]) is)))"

fun up_loop :: "int list \<Rightarrow> int list \<Rightarrow> int list \<Rightarrow> int list \<Rightarrow> error + int list" where
  "up_loop buffer prior out [] = Inr out"
| "up_loop buffer prior out (i # is) =
     ebind (py_index buffer i) (\<lambda>x.
     ebind (py_index prior i) (\<lambda>b.
       up_loop buffer prior (out @ [(x + b) mod 256]) is))"

text \<open>
  \<^verbatim>\<open>int(math.floor((a + b) / 2))\<close> on two bytes: the true division is exact on
  integers this small, so the result is the integer quotient rounded down.
\<close>

fun average_loop ::
  "int \<Rightarrow> int list \<Rightarrow> int list \<Rightarrow> int list \<Rightarrow> int list \<Rightarrow> error + int list" where
  "average_loop bpp buffer prior out [] = Inr out"
| "average_loop bpp buffer prior out (i # is) =
     ebind (py_index buffer (i + 8)) (\<lambda>x.
     ebind (py_index buffer (i + 8 - bpp)) (\<lambda>a.
     ebind (py_index prior (i + 8)) (\<lambda>b.
     ebind (py_store buffer (i + 8) ((x + (a + b) div 2) mod 256)) (\<lambda>buffer'.
       average_loop bpp buffer' prior (out @ [(x + (a + b) div 2) mod 256]) is))))"

fun paeth_loop ::
  "int \<Rightarrow> int list \<Rightarrow> int list \<Rightarrow> int list \<Rightarrow> int list \<Rightarrow> error + int list" where
  "paeth_loop bpp buffer prior out [] = Inr out"
| "paeth_loop bpp buffer prior out (i # is) =
     ebind (py_index buffer (i + 8)) (\<lambda>x.
     ebind (py_index buffer (i + 8 - bpp)) (\<lambda>a.
     ebind (py_index prior (i + 8)) (\<lambda>b.
     ebind (py_index prior (i + 8 - bpp)) (\<lambda>c.
     ebind (py_store buffer (i + 8) ((x + PaethPredictor a b c) mod 256)) (\<lambda>buffer'.
       paeth_loop bpp buffer' prior (out @ [(x + PaethPredictor a b c) mod 256]) is)))))"

text \<open>
  One pass of the row loop of \<^verbatim>\<open>decompress\<close>, on the scanline \<open>brow\<close>.
  \<^item> Up: when the slice of \<^verbatim>\<open>self.rgba\<close> is empty the source evaluates
    \<^verbatim>\<open>bytes([0] * len(brow)-1)\<close>, that is a list minus an integer, which raises
    \<^verbatim>\<open>TypeError\<close>.
  \<^item> Average and Paeth: \<open>prior\<close> is eight zero bytes followed by the slice, so its
    length is never 0 and the replacement by zeros is never taken; it is kept as the
    source has it.
\<close>

definition defilter_row ::
  "(int \<Rightarrow> int \<Rightarrow> error + int) \<Rightarrow> decoder \<Rightarrow> int list \<Rightarrow> error + decoder" where
  "defilter_row fscale s brow =
     (let is_indexed = (color_type s = 3);
          idx = [0..int (length brow) - 1 - 1]
      in ebind (py_index brow 0) (\<lambda>filter_subtype.
         if filter_subtype = 0 then
           ebind (ExplodeBytes fscale (py_slice_from brow 1) (bit_depth s) is_indexed) (\<lambda>bs.
             Inr (s\<lparr>rgba := rgba s @ bs\<rparr>))
         else if filter_subtype = 1 then
           (let bpp = num_channels s in
            ebind (ExplodeBytes fscale (py_slice_from brow 1) (bit_depth s) is_indexed) (\<lambda>bs.
            ebind (sub_loop bpp (replicate 8 0 @ bs) (rgba s) idx) (\<lambda>out.
              Inr (s\<lparr>rgba := out\<rparr>))))
         else if filter_subtype = 2 then
           (let prior = py_slice_from (rgba s) (- (w s * num_channels s)) in
            ebind (ExplodeBytes fscale (py_slice_from brow 1) (bit_depth s) is_indexed) (\<lambda>buffer.
            ebind (if length prior = 0 then Inl TypeError else Inr prior) (\<lambda>prior.
            ebind (up_loop buffer prior (rgba s) idx) (\<lambda>out.
              Inr (s\<lparr>rgba := out\<rparr>)))))
         else if filter_subtype = 3 then
           (let bpp = num_channels s;
                prior = replicate 8 0 @ py_slice_from (rgba s) (- (w s * num_channels s));
                prior = (if length prior = 0 then replicate (8 + length brow - 1) 0 else prior)
            in
            ebind (ExplodeBytes fscale (py_slice_from brow 1) (bit_depth s) is_indexed) (\<lambda>bs.
            ebind (average_loop bpp (replicate 8 0 @ bs) prior (rgba s) idx) (\<lambda>out.
              Inr (s\<lparr>rgba := out\<rparr>))))
         else if filter_subtype = 4 then
           (let bpp = num_channels s;
                prior = replicate 8 0 @ py_slice_from (rgba s) (- (w s * num_channels s));
                prior = (if length prior = 0 then replicate (8 + length brow - 1) 0 else prior)
            in
            ebind (ExplodeBytes fscale (py_slice_from brow 1) (bit_depth s) is_indexed) (\<lambda>bs.
            ebind (paeth_loop bpp (replicate 8 0 @ bs) prior (rgba s) idx) (\<lambda>out.
              Inr (s\<lparr>rgba := out\<rparr>))))
         else Inl (NonStandardFilterType filter_subtype)))"

text \<open>
  \<^verbatim>\<open>www = int((self.w * num_channels * bit_depth / 8) + 1)\<close>. Width is below
  \<open>2^32\<close>, the channel count at most 4 and the bit depth a byte, so the product is an
  integer below \<open>2^53\<close>; its true division by 8 and the addition of 1 are exact in
  double precision, and \<^verbatim>\<open>int\<close> drops the fraction of a non-negative number. The
  result is the integer quotient rounded down, plus one.
\<close>

definition row_stride :: "decoder \<Rightarrow> int" where
  "row_stride s = (w s * num_channels s * bit_depth s) div 8 + 1"

text \<open>\<^verbatim>\<open>brow = ddat[j * www:(j+1) * www]\<close>.\<close>

definition scanline :: "int list \<Rightarrow> int \<Rightarrow> int \<Rightarrow> int list" where
  "scanline ddat www j = py_slice ddat (j * www) ((j + 1) * www)"

fun rows_loop ::
  "(int \<Rightarrow> int \<Rightarrow> error + int) \<Rightarrow> int list \<Rightarrow> int \<Rightarrow> decoder \<Rightarrow> int list \<Rightarrow> error + decoder" where
  "rows_loop fscale ddat www s [] = Inr s"
| "rows_loop fscale ddat www s (j # js) =
     ebind (defilter_row fscale s (scanline ddat www j)) (\<lambda>s'.
       rows_loop fscale ddat www s' js)"

text \<open>
  \<^verbatim>\<open>decompress\<close>. The zlib stream decoder is the external collaborator; it is the
  parameter \<open>inflate\<close>, which returns the decompressed bytes or raises.
\<close>

definition decompress ::
  "(int list \<Rightarrow> error + int list) \<Rightarrow> (int \<Rightarrow> int \<Rightarrow> error + int) \<Rightarrow> decoder \<Rightarrow> error + decoder" where
  "decompress inflate fscale s =
     ebind (inflate (idat_data s)) (\<lambda>ddat.
       rows_loop fscale ddat (row_stride s) s [0..h s - 1])"

section \<open>The chunk reader and the constructor\<close>

text \<open>
  One chunk record, read from the unread rest \<open>f\<close> of the file by the four
  \<^verbatim>\<open>f.read\<close> calls of the loop body: \<^verbatim>\<open>f.read(n)\<close> returns the next \<open>n\<close>
  bytes, fewer at the end of the file. \<open>None\<close> is the short length field, on which the
  loop raises \<^verbatim>\<open>EndReading\<close>; otherwise the result is the type identifier, the
  payload and the rest of the file after the checksum, which is read and dropped.
\<close>

definition read_chunk :: "int list \<Rightarrow> (int list \<times> int list \<times> int list) option" where
  "read_chunk f =
     (let blen = take 4 f; f1 = drop 4 f in
      if length blen < 4 then None
      else
        (let dlen = from_bytes_big blen;
             bcht = take 4 f1; f2 = drop 4 f1;
             bchd = (if dlen > 0 then take (nat dlen) f2 else []);
             f3 = (if dlen > 0 then drop (nat dlen) f2 else f2);
             f4 = drop 4 f3
         in Some (bcht, bchd, f4)))"

lemma read_chunk_shorter:
  "read_chunk f = Some (bcht, bchd, f4) \<Longrightarrow> length f4 < length f"
  by (auto simp add: read_chunk_def Let_def split: if_splits)

text \<open>
  The read loop of \<^verbatim>\<open>parse\<close>. It ends with \<^verbatim>\<open>EndReading\<close>, raised on a short
  length field or by \<^verbatim>\<open>IEND\<close>; the result is the decoder at that moment. Any other
  exception leaves the loop and the constructor.
\<close>

function parse_loop :: "decoder \<Rightarrow> int list \<Rightarrow> error + decoder" where
  "parse_loop s f =
     (case read_chunk f of
        None \<Rightarrow> Inr s
      | Some (bcht, bchd, f4) \<Rightarrow>
          (case dispatch s bcht bchd of
             Inl e \<Rightarrow> Inl e
           | Inr EndReading \<Rightarrow> Inr s
           | Inr (Next s') \<Rightarrow> parse_loop s' f4))"
  by pat_completeness auto
termination
  by (relation "measure (\<lambda>(s, f). length f)") (auto simp add: read_chunk_shorter)

declare parse_loop.simps [simp del]

text \<open>
  The chunk records the read loop dispatches, in file order: it stops behind the record
  on which a handler raises, \<^verbatim>\<open>EndReading\<close> included, and at the short length
  field.
\<close>

function dispatched :: "decoder \<Rightarrow> int list \<Rightarrow> (int list \<times> int list) list" where
  "dispatched s f =
     (case read_chunk f of
        None \<Rightarrow> []
      | Some (bcht, bchd, f4) \<Rightarrow>
          (bcht, bchd) #
            (case dispatch s bcht bchd of
               Inr (Next s') \<Rightarrow> dispatched s' f4
             | _ \<Rightarrow> []))"
  by pat_completeness auto
termination
  by (relation "measure (\<lambda>(s, f). length f)") (auto simp add: read_chunk_shorter)

declare dispatched.simps [simp del]

definition magic :: "int list" where
  "magic = [137, 80, 78, 71, 13, 10, 26, 10]"

text \<open>\<^verbatim>\<open>parse\<close> on the content \<open>f\<close> of the file; the reconstruction runs when the
  read loop has ended.\<close>

definition parse ::
  "(int list \<Rightarrow> error + int list) \<Rightarrow> (int \<Rightarrow> int \<Rightarrow> error + int) \<Rightarrow> decoder \<Rightarrow> int list
   \<Rightarrow> error + decoder" where
  "parse inflate fscale s f =
     (let hdr = take 8 f in
      if hdr \<noteq> magic then Inl NotPng
      else ebind (parse_loop s (drop 8 f)) (\<lambda>s'. decompress inflate fscale s'))"

text \<open>\<^verbatim>\<open>PngDecode.__init__\<close>: the palette check comes after \<^verbatim>\<open>parse\<close> returns.\<close>

definition PngDecode ::
  "(int list \<Rightarrow> error + int list) \<Rightarrow> (int \<Rightarrow> int \<Rightarrow> error + int) \<Rightarrow> int list \<Rightarrow> error + decoder" where
  "PngDecode inflate fscale f =
     ebind (parse inflate fscale init_state f) (\<lambda>s.
       if color_type s = 3 \<and> palette s = None then Inl MissingPalette else Inr s)"

section \<open>The pixel accessor\<close>

text \<open>
  The padding of \<^verbatim>\<open>get\<close> on the list object \<open>p\<close> that the name \<^verbatim>\<open>pixel\<close> is bound
  to. \<^verbatim>\<open>append\<close> changes that object in place; the two-channel branch binds the name
  to a new object instead. The result is the object after the appends, and the value
  the name ends on.
\<close>

definition pad :: "int list \<Rightarrow> int list \<times> int list" where
  "pad p =
     (if length p = 1 then (p @ [p ! 0, p ! 0, 255], p @ [p ! 0, p ! 0, 255])
      else if length p = 2 then (p, [p ! 0, p ! 0, p ! 0, p ! 1])
      else if length p = 3 then (p @ [255], p @ [255])
      else (p, p))"

definition tuple4 :: "int list \<Rightarrow> error + (int \<times> int \<times> int \<times> int)" where
  "tuple4 p =
     ebind (py_index p 0) (\<lambda>r.
     ebind (py_index p 1) (\<lambda>g.
     ebind (py_index p 2) (\<lambda>b.
     ebind (py_index p 3) (\<lambda>a. Inr (r, g, b, a)))))"

text \<open>
  \<^verbatim>\<open>get(x, y)\<close>, with the decoder it leaves behind. The slice of \<^verbatim>\<open>self.rgba\<close> is
  a new object. For an indexed image \<^verbatim>\<open>pixel = self.palette[pixel[0]]\<close> binds the
  name to the entry of the palette itself, not to a copy, so the appends of the padding
  are written to the palette.
\<close>

definition get ::
  "decoder \<Rightarrow> int \<Rightarrow> int \<Rightarrow> error + ((int \<times> int \<times> int \<times> int) \<times> decoder)" where
  "get s x y =
     (let ww = num_channels s;
          www = w s * ww;
          start = y * www + x * ww;
          pixel = py_slice (rgba s) start (start + num_channels s)
      in if color_type s = 3 then
           ebind (py_index pixel 0) (\<lambda>k.
             case palette s of
               None \<Rightarrow> Inl TypeError
             | Some pal \<Rightarrow>
                 ebind (py_index pal k) (\<lambda>entry.
                 ebind (py_store pal k (fst (pad entry))) (\<lambda>pal'.
                 ebind (tuple4 (snd (pad entry))) (\<lambda>t.
                   Inr (t, s\<lparr>palette := Some pal'\<rparr>)))))
         else
           ebind (tuple4 (snd (pad pixel))) (\<lambda>t. Inr (t, s)))"

section \<open>Notions of the specification\<close>

text \<open>
  The row length the specification states: the ceiling of
  \<open>width * channels * bit_depth / 8\<close>.
\<close>

definition packed_row_bytes :: "decoder \<Rightarrow> int" where
  "packed_row_bytes s = \<lceil>real_of_int (w s * num_channels s * bit_depth s) / 8\<rceil>"

text \<open>
  The rows as the specification lays them out in the decompressed stream: \<open>height\<close>
  consecutive pieces of one tag byte and \<open>ceil(width * channels * bit_depth / 8)\<close> data
  bytes each (a piece is shorter where the stream ends early).
\<close>

definition stated_rows :: "decoder \<Rightarrow> int list \<Rightarrow> int list list" where
  "stated_rows s ddat =
     map (\<lambda>j. take (nat (1 + packed_row_bytes s)) (drop (j * nat (1 + packed_row_bytes s)) ddat))
       [0..<nat (h s)]"

text \<open>
  The row pass of the defilterer run over a list of rows in order, the first exception
  ending it.
\<close>

definition defilter_rows ::
  "(int \<Rightarrow> int \<Rightarrow> error + int) \<Rightarrow> decoder \<Rightarrow> int list list \<Rightarrow> error + decoder" where
  "defilter_rows fscale s rows =
     foldl (\<lambda>acc brow. ebind acc (\<lambda>s'. defilter_row fscale s' brow)) (Inr s) rows"

text \<open>The four type identifiers that have a handler, as byte sequences.\<close>

definition known_types :: "int list list" where
  "known_types = map handler_name [H_IHDR, H_IDAT, H_PLTE, H_IEND]"

text \<open>
  A chunk installs a palette when it reaches the \<^verbatim>\<open>PLTE\<close> handler and passes its
  guard.
\<close>

definition installs_palette :: "int list \<Rightarrow> int list \<Rightarrow> bool" where
  "installs_palette bcht bchd =
     (find_handler bcht = Inr (Some H_PLTE)
      \<and> \<not> (int (length bchd) div 3 = 0 \<or> int (length bchd) div 3 > 255))"

text \<open>
  The neighbours of the table rule: the byte \<open>bpp\<close> places to the left, 0 before the
  start of the row; and the predictor each tag adds to the raw byte (1 Sub: left, 2 Up:
  above, 3 Average: floor of the mean of left and above, 4 Paeth).
\<close>

definition left_of :: "nat \<Rightarrow> int list \<Rightarrow> nat \<Rightarrow> int" where
  "left_of bpp xs i = (if i < bpp then 0 else xs ! (i - bpp))"

definition predict :: "int \<Rightarrow> int \<Rightarrow> int \<Rightarrow> int \<Rightarrow> int" where
  "predict tag a b c =
     (if tag = 1 then a
      else if tag = 2 then b
      else if tag = 3 then (a + b) div 2
      else if tag = 4 then PaethPredictor a b c
      else 0)"

section \<open>Auxiliary facts\<close>

lemma ebind_Inr [simp]: "ebind (Inr v) f = f v"
  by (simp add: ebind_def)

lemma ebind_Inl [simp]: "ebind (Inl e) f = Inl e"
  by (simp add: ebind_def)

lemma ebind_eq_Inr: "(ebind m f = Inr r) = (\<exists>v. m = Inr v \<and> f v = Inr r)"
  by (cases m) simp_all

lemma py_index_Inl: "py_index xs i = Inl e \<Longrightarrow> e = IndexError"
  by (simp add: py_index_def Let_def split: if_splits)

lemma emap_Inr: "emap (\<lambda>x. Inr x) xs = Inr xs"
  by (induction xs) simp_all

lemma emap_map:
  "(\<And>x. x \<in> set xs \<Longrightarrow> f x = Inr (g x)) \<Longrightarrow> emap f xs = Inr (map g xs)"
  by (induction xs) simp_all

lemma upto_as_upt: "[0..int k - 1] = map int [0..<k]"
proof (induction k)
  case 0
  show ?case by simp
next
  case (Suc k)
  have "[0..int (Suc k) - 1] = [0..int k - 1] @ [int k]"
    by (subst upto_rec2) simp_all
  with Suc show ?case by simp
qed

subsection \<open>Slices of the decompressed stream\<close>

lemma py_slice_nonneg:
  "0 \<le> a \<Longrightarrow> a \<le> b \<Longrightarrow> py_slice xs a b = take (nat b - nat a) (drop (nat a) xs)"
  by (auto simp add: py_slice_def py_bound_def Let_def min_def)

lemma scanline_nat:
  assumes "0 \<le> j" and "0 \<le> www"
  shows "scanline ddat www j = take (nat www) (drop (nat j * nat www) ddat)"
proof -
  have "(j + 1) * www = j * www + www" by (simp add: algebra_simps)
  then have 1: "nat ((j + 1) * www) = nat (j * www) + nat www"
    using assms by (simp add: nat_add_distrib)
  have 2: "j * www \<le> (j + 1) * www" using assms by (simp add: algebra_simps)
  have 3: "nat (j * www) = nat j * nat www" using assms by (simp add: nat_mult_distrib)
  show ?thesis unfolding scanline_def
    using assms 2 by (simp only: py_slice_nonneg 1 3 mult_nonneg_nonneg add_diff_cancel_left')
qed

lemma length_take_drop:
  "m + n \<le> length xs \<Longrightarrow> length (take n (drop m xs)) = n"
  by simp

lemma rows_tile:
  "concat (map (\<lambda>j. take n (drop (j * n) xs)) [0..<k]) = take (k * n) xs"
proof (induction k)
  case 0
  show ?case by simp
next
  case (Suc k)
  have "take (k * n) xs @ take n (drop (k * n) xs) = take (k * n + n) xs"
    by (simp add: take_add)
  with Suc show ?case by (simp add: add.commute)
qed

subsection \<open>The palette handler\<close>

lemma plte_entry_in_range:
  assumes "i < length bchd div 3"
  shows "plte_entry bchd (int i) = Inr [bchd ! (3 * i), bchd ! (3 * i + 1), bchd ! (3 * i + 2)]"
proof -
  have "3 * i + 2 < length bchd" using assms by linarith
  then show ?thesis
    by (simp add: plte_entry_def py_index_def nat_add_distrib nat_mult_distrib)
qed

subsection \<open>Handler lookup\<close>

lemma ascii_upper_high: "(0x80 \<le> ascii_upper b) = (0x80 \<le> b)"
  by (auto simp add: ascii_upper_def)

lemma known_low:
  assumes "map ascii_upper bcht \<in> set known_types"
  shows "\<not> list_ex (\<lambda>b. 0x80 \<le> b) bcht"
proof -
  have "\<not> list_ex (\<lambda>b. 0x80 \<le> b) (map ascii_upper bcht)"
    using assms by (auto simp add: known_types_def handler_name_def)
  then show ?thesis
    by (simp add: list_ex_iff ascii_upper_high)
qed

lemma handler_named_iff:
  "(\<exists>hnd. handler_named u = Some hnd) = (u \<in> set known_types)"
  by (auto simp add: handler_named_def known_types_def)

lemma find_handler_iff:
  assumes "utf8_valid bcht"
  shows "(\<exists>hnd. find_handler bcht = Inr (Some hnd)) = (map ascii_upper bcht \<in> set known_types)"
  using assms known_low[of bcht] handler_named_iff[of "map ascii_upper bcht"]
  by (auto simp add: find_handler_def)

lemma dispatch_unknown:
  assumes "utf8_valid bcht" and "map ascii_upper bcht \<notin> set known_types"
  shows "dispatch s bcht bchd = Inr (Next s)"
proof -
  have "find_handler bcht = Inr None"
    using assms handler_named_iff[of "map ascii_upper bcht"]
    by (cases "handler_named (map ascii_upper bcht)") (auto simp add: find_handler_def)
  then show ?thesis by (simp add: dispatch_def)
qed

lemma dispatch_known:
  assumes "utf8_valid bcht" and "map ascii_upper bcht = handler_name hnd"
  shows "dispatch s bcht bchd = call_handler hnd s bchd"
proof -
  have k: "map ascii_upper bcht \<in> set known_types"
    using assms(2) by (cases hnd) (simp_all add: known_types_def)
  have "handler_named (handler_name hnd) = Some hnd"
    by (cases hnd) (simp_all add: handler_named_def handler_name_def)
  then have "find_handler bcht = Inr (Some hnd)"
    using assms known_low[OF k] by (simp add: find_handler_def)
  then show ?thesis by (simp add: dispatch_def)
qed

lemma read_chunk_record:
  assumes "length blen = 4" and "from_bytes_big blen = int (length bchd)"
    and "length bcht = 4" and "length bcrc = 4"
  shows "read_chunk (blen @ bcht @ bchd @ bcrc @ rest) = Some (bcht, bchd, rest)"
  using assms by (cases "bchd = []") (simp_all add: read_chunk_def Let_def)

subsection \<open>What the handlers and the reconstruction leave alone\<close>

lemma defilter_row_frame:
  assumes "defilter_row fscale s brow = Inr s'"
  shows "color_type s' = color_type s \<and> palette s' = palette s"
  using assms
  by (auto simp add: defilter_row_def Let_def ebind_eq_Inr split: if_splits)

lemma rows_loop_frame:
  "rows_loop fscale ddat www s js = Inr s' \<Longrightarrow>
     color_type s' = color_type s \<and> palette s' = palette s"
proof (induction js arbitrary: s)
  case Nil
  then show ?case by simp
next
  case (Cons j js)
  from Cons.prems obtain s1 where
    1: "defilter_row fscale s (scanline ddat www j) = Inr s1" and
    2: "rows_loop fscale ddat www s1 js = Inr s'"
    by (auto simp add: ebind_eq_Inr)
  from Cons.IH[OF 2] defilter_row_frame[OF 1] show ?case by simp
qed

lemma decompress_frame:
  "decompress inflate fscale s = Inr s' \<Longrightarrow>
     color_type s' = color_type s \<and> palette s' = palette s"
  by (auto simp add: decompress_def ebind_eq_Inr dest: rows_loop_frame)

lemma dispatch_palette_iff:
  assumes "dispatch s bcht bchd = Inr (Next s1)"
  shows "(palette s1 = None) = (palette s = None \<and> \<not> installs_palette bcht bchd)"
proof (cases "find_handler bcht")
  case (Inl e)
  with assms show ?thesis by (simp add: dispatch_def)
next
  case (Inr found)
  show ?thesis
  proof (cases found)
    case None
    with Inr assms show ?thesis by (simp add: dispatch_def installs_palette_def)
  next
    case (Some hnd)
    show ?thesis
    proof (cases hnd)
      case H_IHDR
      with Some Inr assms show ?thesis
        by (auto simp add: dispatch_def call_handler_def IHDR_def Let_def ebind_eq_Inr
            installs_palette_def split: option.splits if_splits)
    next
      case H_IDAT
      with Some Inr assms show ?thesis
        by (auto simp add: dispatch_def call_handler_def IDAT_def installs_palette_def)
    next
      case H_PLTE
      with Some Inr assms show ?thesis
        by (auto simp add: dispatch_def call_handler_def PLTE_def Let_def ebind_eq_Inr
            installs_palette_def split: if_splits)
    next
      case H_IEND
      with Some Inr assms show ?thesis
        by (simp add: dispatch_def call_handler_def IEND_def)
    qed
  qed
qed

lemma dispatch_end_no_install:
  assumes "dispatch s bcht bchd = Inr EndReading"
  shows "\<not> installs_palette bcht bchd"
proof
  assume "installs_palette bcht bchd"
  then have "find_handler bcht = Inr (Some H_PLTE)" by (simp add: installs_palette_def)
  with assms show False
    by (auto simp add: dispatch_def call_handler_def ebind_eq_Inr)
qed

lemma parse_loop_palette_iff:
  "parse_loop s f = Inr s' \<Longrightarrow>
     (palette s' = None)
       = (palette s = None
          \<and> list_all (\<lambda>(bcht, bchd). \<not> installs_palette bcht bchd) (dispatched s f))"
proof (induction s f rule: parse_loop.induct)
  case (1 s f)
  show ?case
  proof (cases "read_chunk f")
    case None
    with "1.prems" show ?thesis by (simp add: parse_loop.simps dispatched.simps)
  next
    case (Some rec)
    obtain bcht bchd f4 where rec: "rec = (bcht, bchd, f4)" by (cases rec) auto
    show ?thesis
    proof (cases "dispatch s bcht bchd")
      case (Inl e)
      with Some rec "1.prems" show ?thesis by (simp add: parse_loop.simps[of s f])
    next
      case (Inr fl)
      show ?thesis
      proof (cases fl)
        case EndReading
        with Inr Some rec "1.prems" have "s' = s" by (simp add: parse_loop.simps[of s f])
        moreover have "dispatched s f = [(bcht, bchd)]"
          using Some rec Inr EndReading by (simp add: dispatched.simps[of s f])
        moreover have "\<not> installs_palette bcht bchd"
          using Inr EndReading dispatch_end_no_install by simp
        ultimately show ?thesis by simp
      next
        case (Next s1)
        with Inr Some rec "1.prems" have pl: "parse_loop s1 f4 = Inr s'"
          by (simp add: parse_loop.simps[of s f])
        have d: "dispatched s f = (bcht, bchd) # dispatched s1 f4"
          using Some rec Inr Next by (simp add: dispatched.simps[of s f])
        have ih: "(palette s' = None)
            = (palette s1 = None
               \<and> list_all (\<lambda>(bcht, bchd). \<not> installs_palette bcht bchd) (dispatched s1 f4))"
          using "1.IH" Some rec Inr Next pl by simp
        have st: "(palette s1 = None) = (palette s = None \<and> \<not> installs_palette bcht bchd)"
          using dispatch_palette_iff Inr Next by simp
        show ?thesis unfolding ih st d by auto
      qed
    qed
  qed
qed

subsection \<open>Where the missing-palette error cannot come from\<close>

lemma emap_Inl: "emap f xs = Inl e \<Longrightarrow> \<exists>x \<in> set xs. f x = Inl e"
proof (induction xs)
  case Nil
  then show ?case by simp
next
  case (Cons x xs)
  show ?case
  proof (cases "f x")
    case (Inl e')
    with Cons.prems show ?thesis by simp
  next
    case (Inr v)
    with Cons show ?thesis by (cases "emap f xs") auto
  qed
qed

lemma py_store_Inl: "py_store xs i v = Inl e \<Longrightarrow> e = IndexError"
  by (simp add: py_store_def Let_def split: if_splits)

lemma ebind_eq_Inl:
  "(ebind m f = Inl e) = (m = Inl e \<or> (\<exists>v. m = Inr v \<and> f v = Inl e))"
  by (cases m) simp_all

lemma plte_entry_Inl: "plte_entry bchd i = Inl e \<Longrightarrow> e = IndexError"
  by (auto simp add: plte_entry_def ebind_eq_Inl dest: py_index_Inl)

lemma PLTE_not_missing: "PLTE s bchd \<noteq> Inl MissingPalette"
  by (auto simp add: PLTE_def Let_def ebind_eq_Inl dest!: emap_Inl plte_entry_Inl)

lemma IHDR_not_missing: "IHDR s bchd \<noteq> Inl MissingPalette"
  by (auto simp add: IHDR_def Let_def ebind_eq_Inl split: option.splits if_splits
      dest: py_index_Inl)

lemma dispatch_not_missing: "dispatch s bcht bchd \<noteq> Inl MissingPalette"
proof -
  have "call_handler hnd s bchd \<noteq> Inl MissingPalette" for hnd
    using PLTE_not_missing[of s bchd] IHDR_not_missing[of s bchd]
    by (cases hnd) (auto simp add: call_handler_def IDAT_def IEND_def ebind_eq_Inl)
  then show ?thesis
    by (auto simp add: dispatch_def find_handler_def ebind_eq_Inl split: option.splits if_splits)
qed

lemma parse_loop_not_missing: "parse_loop s f \<noteq> Inl MissingPalette"
proof (induction s f rule: parse_loop.induct)
  case (1 s f)
  show ?case
  proof (cases "read_chunk f")
    case None
    then show ?thesis by (simp add: parse_loop.simps)
  next
    case (Some rec)
    obtain bcht bchd f4 where rec: "rec = (bcht, bchd, f4)" by (cases rec) auto
    show ?thesis
    proof (cases "dispatch s bcht bchd")
      case (Inl e)
      with dispatch_not_missing[of s bcht bchd] have "e \<noteq> MissingPalette" by auto
      with Inl Some rec show ?thesis by (simp add: parse_loop.simps[of s f])
    next
      case (Inr fl)
      show ?thesis
      proof (cases fl)
        case EndReading
        with Inr Some rec show ?thesis by (simp add: parse_loop.simps[of s f])
      next
        case (Next s1)
        with Inr Some rec "1.IH" show ?thesis by (simp add: parse_loop.simps[of s f])
      qed
    qed
  qed
qed

lemma ExplodeBytes_not_missing: "ExplodeBytes fscale data bits ix \<noteq> Inl MissingPalette"
proof -
  have "explode16 data is \<noteq> Inl MissingPalette" for "is"
    by (induction "is") (auto simp add: ebind_eq_Inl dest: py_index_Inl)
  then show ?thesis
    by (auto simp add: ExplodeBytes_def GetNormalizer_def emap_Inr py_truediv_def py_range0_def
        ebind_eq_Inl split: pynum.splits)
qed

lemma sub_loop_not_missing: "sub_loop bpp buffer out is \<noteq> Inl MissingPalette"
  by (induction bpp buffer out "is" rule: sub_loop.induct)
     (auto simp add: ebind_eq_Inl dest: py_index_Inl py_store_Inl)

lemma up_loop_not_missing: "up_loop buffer prior out is \<noteq> Inl MissingPalette"
  by (induction buffer prior out "is" rule: up_loop.induct)
     (auto simp add: ebind_eq_Inl dest: py_index_Inl)

lemma average_loop_not_missing: "average_loop bpp buffer prior out is \<noteq> Inl MissingPalette"
  by (induction bpp buffer prior out "is" rule: average_loop.induct)
     (auto simp add: ebind_eq_Inl dest: py_index_Inl py_store_Inl)

lemma paeth_loop_not_missing: "paeth_loop bpp buffer prior out is \<noteq> Inl MissingPalette"
  by (induction bpp buffer prior out "is" rule: paeth_loop.induct)
     (auto simp add: ebind_eq_Inl dest: py_index_Inl py_store_Inl)

lemma defilter_row_not_missing: "defilter_row fscale s brow \<noteq> Inl MissingPalette"
  using ExplodeBytes_not_missing sub_loop_not_missing up_loop_not_missing
    average_loop_not_missing paeth_loop_not_missing
  by (auto simp add: defilter_row_def Let_def ebind_eq_Inl split: if_splits dest: py_index_Inl)

lemma rows_loop_not_missing: "rows_loop fscale ddat www s js \<noteq> Inl MissingPalette"
  by (induction js arbitrary: s) (auto simp add: ebind_eq_Inl defilter_row_not_missing)

lemma parse_not_missing:
  assumes "\<forall>d. inflate d \<noteq> Inl MissingPalette"
  shows "parse inflate fscale s f \<noteq> Inl MissingPalette"
  using assms parse_loop_not_missing rows_loop_not_missing
  by (auto simp add: parse_def Let_def decompress_def ebind_eq_Inl)

subsection \<open>The row loop as a pass over the list of scanlines\<close>

lemma foldl_ebind_Inl:
  "foldl (\<lambda>acc x. ebind acc (\<lambda>v. f v x)) (Inl e) xs = Inl e"
  by (induction xs) simp_all

lemma rows_loop_foldl:
  "rows_loop fscale ddat www s js =
     foldl (\<lambda>acc brow. ebind acc (\<lambda>s'. defilter_row fscale s' brow)) (Inr s)
       (map (scanline ddat www) js)"
proof (induction js arbitrary: s)
  case Nil
  show ?case by simp
next
  case (Cons j js)
  show ?case
  proof (cases "defilter_row fscale s (scanline ddat www j)")
    case (Inl e)
    then show ?thesis by (simp add: foldl_ebind_Inl)
  next
    case (Inr s1)
    then show ?thesis using Cons.IH[of s1] by simp
  qed
qed

section \<open>The table rule on rows that have their prior row\<close>

text \<open>
  Reads and writes of the padded buffers at the indices the filter loops use, then one
  lemma per loop: started at byte \<open>k\<close> with the bytes \<open>pre\<close> already reconstructed,
  the loop ends without an exception and every byte it appends obeys the rule.
\<close>

lemma py_index_in:
  "0 \<le> i \<Longrightarrow> i < int (length xs) \<Longrightarrow> py_index xs i = Inr (xs ! nat i)"
  by (simp add: py_index_def)

lemma py_store_in:
  "0 \<le> i \<Longrightarrow> i < int (length xs) \<Longrightarrow> py_store xs i v = Inr (xs[nat i := v])"
  by (simp add: py_store_def)

lemma upto_step: "k < n \<Longrightarrow> [int k..int n - 1] = int k # [int (Suc k)..int n - 1]"
  by (subst upto.simps) (simp add: add.commute)

lemma padded_left:
  assumes "1 \<le> bpp" and "bpp \<le> 8" and "k \<le> length pre"
  shows "(replicate 8 (0::int) @ pre @ rest) ! (k + 8 - bpp) = left_of bpp pre k"
proof (cases "k < bpp")
  case True
  then have "k + 8 - bpp < 8" using assms by simp
  then show ?thesis using True by (simp add: nth_append left_of_def)
next
  case False
  then have e: "k + 8 - bpp = 8 + (k - bpp)" using assms by simp
  have l: "k - bpp < length pre" using False assms by simp
  have "(replicate 8 0 @ pre @ rest) ! (8 + (k - bpp)) = (pre @ rest) ! (k - bpp)"
    by (simp add: nth_append)
  also have "\<dots> = pre ! (k - bpp)" using l by (simp add: nth_append)
  finally show ?thesis using False by (simp only: e left_of_def if_False)
qed

lemma buffer_here:
  assumes "length pre = k" and "k < length raw"
  shows "py_index (replicate 8 (0::int) @ pre @ drop k raw) (int k + 8) = Inr (raw ! k)"
proof -
  have "(replicate 8 0 @ pre @ drop k raw) ! (k + 8) = raw ! k"
    using assms by (simp add: nth_append add.commute)
  moreover have "nat (int k + 8) = k + 8" by simp
  moreover have "int k + 8 < int (length (replicate 8 (0::int) @ pre @ drop k raw))"
    using assms by simp
  ultimately show ?thesis
    using py_index_in[of "int k + 8" "replicate 8 0 @ pre @ drop k raw"] by simp
qed

lemma buffer_left:
  assumes "1 \<le> bpp" and "bpp \<le> 8" and "length pre = k" and "k < length raw"
  shows "py_index (replicate 8 (0::int) @ pre @ drop k raw) (int k + 8 - int bpp)
           = Inr (left_of bpp pre k)"
proof -
  have "(replicate 8 0 @ pre @ drop k raw) ! (k + 8 - bpp) = left_of bpp pre k"
    using padded_left[OF assms(1,2), of k pre "drop k raw"] assms(3) by simp
  moreover have "nat (int k + 8 - int bpp) = k + 8 - bpp" using assms(2) by simp
  moreover have "int k + 8 - int bpp < int (length (replicate 8 (0::int) @ pre @ drop k raw))"
    using assms by simp
  moreover have "0 \<le> int k + 8 - int bpp" using assms(2) by simp
  ultimately show ?thesis
    using py_index_in[of "int k + 8 - int bpp" "replicate 8 0 @ pre @ drop k raw"] by simp
qed

lemma prior_here:
  assumes "k < length prior"
  shows "py_index (replicate 8 (0::int) @ prior) (int k + 8) = Inr (prior ! k)"
proof -
  have "(replicate 8 0 @ prior) ! (k + 8) = prior ! k"
    by (simp add: nth_append add.commute)
  moreover have "nat (int k + 8) = k + 8" by simp
  moreover have "int k + 8 < int (length (replicate 8 (0::int) @ prior))" using assms by simp
  ultimately show ?thesis
    using py_index_in[of "int k + 8" "replicate 8 0 @ prior"] by simp
qed

lemma prior_left:
  assumes "1 \<le> bpp" and "bpp \<le> 8" and "k < length prior"
  shows "py_index (replicate 8 0 @ prior) (int k + 8 - int bpp) = Inr (left_of bpp prior k)"
proof -
  have "k \<le> length prior" using assms(3) by simp
  from padded_left[OF assms(1,2) this, of "[]"]
  have "(replicate 8 0 @ prior) ! (k + 8 - bpp) = left_of bpp prior k" by simp
  moreover have "nat (int k + 8 - int bpp) = k + 8 - bpp" using assms(2) by simp
  moreover have "int k + 8 - int bpp < int (length (replicate 8 (0::int) @ prior))"
    using assms by simp
  moreover have "0 \<le> int k + 8 - int bpp" using assms(2) by simp
  ultimately show ?thesis
    using py_index_in[of "int k + 8 - int bpp" "replicate 8 0 @ prior"] by simp
qed

lemma buffer_store:
  assumes "length pre = k" and "k < length raw"
  shows "py_store (replicate 8 (0::int) @ pre @ drop k raw) (int k + 8) d
           = Inr (replicate 8 0 @ (pre @ [d]) @ drop (Suc k) raw)"
proof -
  have "drop k raw = raw ! k # drop (Suc k) raw" using assms(2) by (simp add: Cons_nth_drop_Suc)
  then have "(replicate 8 0 @ pre @ drop k raw)[k + 8 := d]
           = replicate 8 0 @ (pre @ [d]) @ drop (Suc k) raw"
    using assms(1) by (simp add: list_update_append add.commute)
  moreover have "nat (int k + 8) = k + 8" by simp
  moreover have "int k + 8 < int (length (replicate 8 (0::int) @ pre @ drop k raw))"
    using assms by simp
  ultimately show ?thesis
    using py_store_in[of "int k + 8" "replicate 8 0 @ pre @ drop k raw" d] by simp
qed

text \<open>One more reconstructed byte keeps the rule on the bytes from \<open>k\<close> on.\<close>

lemma table_extend:
  assumes "length pre = k" and "1 \<le> bpp"
    and "d = (raw ! k + F (left_of bpp pre k) k) mod 256"
    and "\<forall>i. Suc k \<le> i \<and> i < n \<longrightarrow>
           ((pre @ [d]) @ res) ! i = (raw ! i + F (left_of bpp ((pre @ [d]) @ res) i) i) mod 256"
  shows "\<forall>i. k \<le> i \<and> i < n \<longrightarrow>
           (pre @ d # res) ! i = (raw ! i + F (left_of bpp (pre @ d # res) i) i) mod (256::int)"
proof (intro allI impI)
  fix i assume i: "k \<le> i \<and> i < n"
  show "(pre @ d # res) ! i = (raw ! i + F (left_of bpp (pre @ d # res) i) i) mod 256"
  proof (cases "i = k")
    case True
    have "left_of bpp (pre @ d # res) k = left_of bpp pre k"
      using assms(1,2) by (simp add: left_of_def nth_append)
    then show ?thesis using True assms(1,3) by (simp add: nth_append)
  next
    case False
    with i have "Suc k \<le> i \<and> i < n" by simp
    with assms(4) show ?thesis by simp
  qed
qed

lemma paeth_loop_table:
  assumes "1 \<le> bpp" and "bpp \<le> 8" and "length prior = length raw"
    and "length pre = k" and "k \<le> length raw"
  shows "\<exists>res. paeth_loop (int bpp) (replicate 8 0 @ pre @ drop k raw) (replicate 8 0 @ prior) acc
                  [int k..int (length raw) - 1] = Inr (acc @ res)
           \<and> length res = length raw - k
           \<and> (\<forall>i. k \<le> i \<and> i < length raw \<longrightarrow>
                 (pre @ res) ! i
                   = (raw ! i + predict 4 (left_of bpp (pre @ res) i) (prior ! i)
                                  (left_of bpp prior i)) mod 256)"
  using assms(4,5)
proof (induction "length raw - k" arbitrary: k pre acc)
  case 0
  then have "k = length raw" by simp
  then show ?case by simp
next
  case (Suc m)
  then have kl: "k < length raw" by simp
  then have kp: "k < length prior" using assms(3) by simp
  define d where
    "d = (raw ! k + predict 4 (left_of bpp pre k) (prior ! k) (left_of bpp prior k)) mod 256"
  have m: "m = length raw - Suc k" using Suc.hyps(2) by simp
  from Suc.hyps(1)[OF m, of "pre @ [d]" "acc @ [d]"] Suc.prems(1) kl
  obtain res where
    r1: "paeth_loop (int bpp) (replicate 8 0 @ (pre @ [d]) @ drop (Suc k) raw)
           (replicate 8 0 @ prior) (acc @ [d]) [int (Suc k)..int (length raw) - 1]
           = Inr ((acc @ [d]) @ res)" and
    r2: "length res = length raw - Suc k" and
    r3: "\<forall>i. Suc k \<le> i \<and> i < length raw \<longrightarrow>
           ((pre @ [d]) @ res) ! i
             = (raw ! i + predict 4 (left_of bpp ((pre @ [d]) @ res) i) (prior ! i)
                            (left_of bpp prior i)) mod 256"
    by auto
  have run: "paeth_loop (int bpp) (replicate 8 0 @ pre @ drop k raw) (replicate 8 0 @ prior) acc
               [int k..int (length raw) - 1] = Inr (acc @ (d # res))"
    unfolding upto_step[OF kl]
    using r1
    by (simp add: buffer_here[OF Suc.prems(1) kl] buffer_left[OF assms(1,2) Suc.prems(1) kl]
        prior_here[OF kp] prior_left[OF assms(1,2) kp] buffer_store[OF Suc.prems(1) kl]
        d_def predict_def)
  have len: "length (d # res) = length raw - k" using r2 kl by simp
  from table_extend[OF Suc.prems(1) assms(1), of d raw
      "\<lambda>a i. predict 4 a (prior ! i) (left_of bpp prior i)" "length raw" res] d_def r3
  have "\<forall>i. k \<le> i \<and> i < length raw \<longrightarrow>
         (pre @ d # res) ! i
           = (raw ! i + predict 4 (left_of bpp (pre @ d # res) i) (prior ! i)
                          (left_of bpp prior i)) mod 256"
    by simp
  with run len show ?case by blast
qed

lemma average_loop_table:
  assumes "1 \<le> bpp" and "bpp \<le> 8" and "length prior = length raw"
    and "length pre = k" and "k \<le> length raw"
  shows "\<exists>res. average_loop (int bpp) (replicate 8 0 @ pre @ drop k raw) (replicate 8 0 @ prior) acc
                  [int k..int (length raw) - 1] = Inr (acc @ res)
           \<and> length res = length raw - k
           \<and> (\<forall>i. k \<le> i \<and> i < length raw \<longrightarrow>
                 (pre @ res) ! i
                   = (raw ! i + predict 3 (left_of bpp (pre @ res) i) (prior ! i)
                                  (left_of bpp prior i)) mod 256)"
  using assms(4,5)
proof (induction "length raw - k" arbitrary: k pre acc)
  case 0
  then have "k = length raw" by simp
  then show ?case by simp
next
  case (Suc m)
  then have kl: "k < length raw" by simp
  then have kp: "k < length prior" using assms(3) by simp
  define d where
    "d = (raw ! k + predict 3 (left_of bpp pre k) (prior ! k) (left_of bpp prior k)) mod 256"
  have m: "m = length raw - Suc k" using Suc.hyps(2) by simp
  from Suc.hyps(1)[OF m, of "pre @ [d]" "acc @ [d]"] Suc.prems(1) kl
  obtain res where
    r1: "average_loop (int bpp) (replicate 8 0 @ (pre @ [d]) @ drop (Suc k) raw)
           (replicate 8 0 @ prior) (acc @ [d]) [int (Suc k)..int (length raw) - 1]
           = Inr ((acc @ [d]) @ res)" and
    r2: "length res = length raw - Suc k" and
    r3: "\<forall>i. Suc k \<le> i \<and> i < length raw \<longrightarrow>
           ((pre @ [d]) @ res) ! i
             = (raw ! i + predict 3 (left_of bpp ((pre @ [d]) @ res) i) (prior ! i)
                            (left_of bpp prior i)) mod 256"
    by auto
  have run: "average_loop (int bpp) (replicate 8 0 @ pre @ drop k raw) (replicate 8 0 @ prior) acc
               [int k..int (length raw) - 1] = Inr (acc @ (d # res))"
    unfolding upto_step[OF kl]
    using r1
    by (simp add: buffer_here[OF Suc.prems(1) kl] buffer_left[OF assms(1,2) Suc.prems(1) kl]
        prior_here[OF kp] buffer_store[OF Suc.prems(1) kl] d_def predict_def)
  have len: "length (d # res) = length raw - k" using r2 kl by simp
  from table_extend[OF Suc.prems(1) assms(1), of d raw
      "\<lambda>a i. predict 3 a (prior ! i) (left_of bpp prior i)" "length raw" res] d_def r3
  have "\<forall>i. k \<le> i \<and> i < length raw \<longrightarrow>
         (pre @ d # res) ! i
           = (raw ! i + predict 3 (left_of bpp (pre @ d # res) i) (prior ! i)
                          (left_of bpp prior i)) mod 256"
    by simp
  with run len show ?case by blast
qed

lemma sub_loop_table:
  assumes "1 \<le> bpp" and "bpp \<le> 8"
    and "length pre = k" and "k \<le> length raw"
  shows "\<exists>res. sub_loop (int bpp) (replicate 8 0 @ pre @ drop k raw) acc
                  [int k..int (length raw) - 1] = Inr (acc @ res)
           \<and> length res = length raw - k
           \<and> (\<forall>i. k \<le> i \<and> i < length raw \<longrightarrow>
                 (pre @ res) ! i
                   = (raw ! i + predict 1 (left_of bpp (pre @ res) i) (prior ! i)
                                  (left_of bpp prior i)) mod 256)"
  using assms(3,4)
proof (induction "length raw - k" arbitrary: k pre acc)
  case 0
  then have "k = length raw" by simp
  then show ?case by simp
next
  case (Suc m)
  then have kl: "k < length raw" by simp
  define d where
    "d = (raw ! k + predict 1 (left_of bpp pre k) (prior ! k) (left_of bpp prior k)) mod 256"
  have m: "m = length raw - Suc k" using Suc.hyps(2) by simp
  from Suc.hyps(1)[OF m, of "pre @ [d]" "acc @ [d]"] Suc.prems(1) kl
  obtain res where
    r1: "sub_loop (int bpp) (replicate 8 0 @ (pre @ [d]) @ drop (Suc k) raw)
           (acc @ [d]) [int (Suc k)..int (length raw) - 1]
           = Inr ((acc @ [d]) @ res)" and
    r2: "length res = length raw - Suc k" and
    r3: "\<forall>i. Suc k \<le> i \<and> i < length raw \<longrightarrow>
           ((pre @ [d]) @ res) ! i
             = (raw ! i + predict 1 (left_of bpp ((pre @ [d]) @ res) i) (prior ! i)
                            (left_of bpp prior i)) mod 256"
    by auto
  have run: "sub_loop (int bpp) (replicate 8 0 @ pre @ drop k raw) acc
               [int k..int (length raw) - 1] = Inr (acc @ (d # res))"
    unfolding upto_step[OF kl]
    using r1
    by (simp add: buffer_here[OF Suc.prems(1) kl] buffer_left[OF assms(1,2) Suc.prems(1) kl]
        buffer_store[OF Suc.prems(1) kl] d_def predict_def)
  have len: "length (d # res) = length raw - k" using r2 kl by simp
  from table_extend[OF Suc.prems(1) assms(1), of d raw
      "\<lambda>a i. predict 1 a (prior ! i) (left_of bpp prior i)" "length raw" res] d_def r3
  have "\<forall>i. k \<le> i \<and> i < length raw \<longrightarrow>
         (pre @ d # res) ! i
           = (raw ! i + predict 1 (left_of bpp (pre @ d # res) i) (prior ! i)
                          (left_of bpp prior i)) mod 256"
    by simp
  with run len show ?case by blast
qed

lemma up_loop_table:
  assumes "length prior = length raw" and "length pre = k" and "k \<le> length raw"
  shows "\<exists>res. up_loop raw prior acc [int k..int (length raw) - 1] = Inr (acc @ res)
           \<and> length res = length raw - k
           \<and> (\<forall>i. k \<le> i \<and> i < length raw \<longrightarrow>
                 (pre @ res) ! i
                   = (raw ! i + predict 2 (left_of bpp (pre @ res) i) (prior ! i)
                                  (left_of bpp prior i)) mod 256)"
  using assms(2,3)
proof (induction "length raw - k" arbitrary: k pre acc)
  case 0
  then have "k = length raw" by simp
  then show ?case by simp
next
  case (Suc m)
  then have kl: "k < length raw" by simp
  then have kp: "k < length prior" using assms(1) by simp
  define d where "d = (raw ! k + prior ! k) mod 256"
  have m: "m = length raw - Suc k" using Suc.hyps(2) by simp
  from Suc.hyps(1)[OF m, of "pre @ [d]" "acc @ [d]"] Suc.prems(1) kl
  obtain res where
    r1: "up_loop raw prior (acc @ [d]) [int (Suc k)..int (length raw) - 1]
           = Inr ((acc @ [d]) @ res)" and
    r2: "length res = length raw - Suc k" and
    r3: "\<forall>i. Suc k \<le> i \<and> i < length raw \<longrightarrow>
           ((pre @ [d]) @ res) ! i
             = (raw ! i + predict 2 (left_of bpp ((pre @ [d]) @ res) i) (prior ! i)
                            (left_of bpp prior i)) mod 256"
    by auto
  have run: "up_loop raw prior acc [int k..int (length raw) - 1] = Inr (acc @ (d # res))"
    unfolding upto_step[OF kl]
    using r1 kl kp by (simp add: py_index_in d_def)
  have len: "length (d # res) = length raw - k" using r2 kl by simp
  have "\<forall>i. k \<le> i \<and> i < length raw \<longrightarrow>
         (pre @ d # res) ! i
           = (raw ! i + predict 2 (left_of bpp (pre @ d # res) i) (prior ! i)
                          (left_of bpp prior i)) mod 256"
  proof (intro allI impI)
    fix i assume i: "k \<le> i \<and> i < length raw"
    show "(pre @ d # res) ! i
           = (raw ! i + predict 2 (left_of bpp (pre @ d # res) i) (prior ! i)
                          (left_of bpp prior i)) mod 256"
    proof (cases "i = k")
      case True
      then show ?thesis using Suc.prems(1) by (simp add: nth_append d_def predict_def)
    next
      case False
      with i have "Suc k \<le> i \<and> i < length raw" by simp
      with r3 show ?thesis by simp
    qed
  qed
  with run len show ?case by blast
qed


lemma py_slice_from_tail: "py_slice_from (t # xs) 1 = xs"
  by (simp add: py_slice_from_def py_bound_def)

lemma prior_slice:
  assumes "int (length prior) = n" and "prior \<noteq> []"
  shows "py_slice_from (before @ prior) (- n) = prior"
proof -
  have "0 < length prior" using assms(2) by simp
  then have "py_bound (length (before @ prior)) (- n) = length before"
    using assms(1) by (auto simp add: py_bound_def)
  then show ?thesis by (simp add: py_slice_from_def)
qed

text \<open>
  A row of an 8-bit image with one to eight bytes per pixel, tag 0 to 4. For the tags
  2, 3 and 4 the row before it has been reconstructed in full: it is the end \<open>prior\<close>
  of \<^verbatim>\<open>self.rgba\<close>, as long as the row and as \<open>width * channels\<close>. Then the row is
  reconstructed without an exception, the bytes \<open>out\<close> are appended to
  \<^verbatim>\<open>self.rgba\<close>, and every byte of \<open>out\<close> obeys the table rule of the tag, with 0 for
  a left or upper-left neighbour before the start of the row.
\<close>

lemma defilter_row_table:
  assumes depth: "bit_depth s = 8"
    and bpp: "1 \<le> num_channels s" "num_channels s \<le> 8"
    and tag: "0 \<le> tag" "tag \<le> 4"
    and prior: "2 \<le> tag \<longrightarrow>
          rgba s = before @ prior \<and> length prior = length data
          \<and> int (length data) = w s * num_channels s \<and> data \<noteq> []"
  shows "\<exists>out. defilter_row fscale s (tag # data) = Inr (s\<lparr>rgba := rgba s @ out\<rparr>)
           \<and> length out = length data
           \<and> (\<forall>i<length data.
                 out ! i =
                   (if tag = 0 then data ! i
                    else (data ! i
                          + predict tag (left_of (nat (num_channels s)) out i) (prior ! i)
                              (left_of (nat (num_channels s)) prior i)) mod 256))"
proof -
  let ?bpp = "nat (num_channels s)"
  let ?n = "int (length data) - 1"
  let ?slice = "py_slice_from (rgba s) (- (w s * num_channels s))"
  have b1: "1 \<le> ?bpp" and b8: "?bpp \<le> 8" and bi: "int ?bpp = num_channels s"
    using bpp by simp_all
  have row: "defilter_row fscale s (tag # data) =
      (if tag = 0 then Inr (s\<lparr>rgba := rgba s @ data\<rparr>)
       else if tag = 1 then
         ebind (sub_loop (num_channels s) (replicate 8 0 @ data) (rgba s) [0..?n])
           (\<lambda>out. Inr (s\<lparr>rgba := out\<rparr>))
       else if tag = 2 then
         ebind (if length ?slice = 0 then Inl TypeError else Inr ?slice) (\<lambda>prior.
         ebind (up_loop data prior (rgba s) [0..?n]) (\<lambda>out. Inr (s\<lparr>rgba := out\<rparr>)))
       else if tag = 3 then
         ebind (average_loop (num_channels s) (replicate 8 0 @ data) (replicate 8 0 @ ?slice)
                  (rgba s) [0..?n])
           (\<lambda>out. Inr (s\<lparr>rgba := out\<rparr>))
       else
         ebind (paeth_loop (num_channels s) (replicate 8 0 @ data) (replicate 8 0 @ ?slice)
                  (rgba s) [0..?n])
           (\<lambda>out. Inr (s\<lparr>rgba := out\<rparr>)))"
    using tag
    by (simp add: defilter_row_def Let_def py_index_def ExplodeBytes_def depth
        py_slice_from_tail)
  have pl: "length prior = length data" "prior \<noteq> []" if "2 \<le> tag"
    using prior that by auto
  have ps: "?slice = prior" if "2 \<le> tag"
  proof -
    from prior that have 1: "rgba s = before @ prior"
      and 2: "int (length prior) = w s * num_channels s" by simp_all
    from prior_slice[OF 2 pl(2)[OF that], of before] 1 show ?thesis by simp
  qed
  consider "tag = 0" | "tag = 1" | "tag = 2" | "tag = 3" | "tag = 4"
    using tag by linarith
  then show ?thesis
  proof cases
    case 1
    with row have "defilter_row fscale s (tag # data) = Inr (s\<lparr>rgba := rgba s @ data\<rparr>)"
      by simp
    with 1 show ?thesis by auto
  next
    case 2
    from sub_loop_table[OF b1 b8, of "[]" 0 data "rgba s" prior, unfolded bi]
    obtain res where
      r: "sub_loop (num_channels s) (replicate 8 0 @ data) (rgba s) [0..?n] = Inr (rgba s @ res)"
      and l: "length res = length data"
      and p: "\<forall>i. i < length data \<longrightarrow>
               res ! i = (data ! i + predict 1 (left_of ?bpp res i) (prior ! i)
                             (left_of ?bpp prior i)) mod 256"
      by auto
    from row 2 r have "defilter_row fscale s (tag # data) = Inr (s\<lparr>rgba := rgba s @ res\<rparr>)"
      by simp
    with 2 l p show ?thesis by auto
  next
    case 3
    from up_loop_table[OF pl(1), of "[]" 0 "rgba s" ?bpp] 3
    obtain res where
      r: "up_loop data prior (rgba s) [0..?n] = Inr (rgba s @ res)"
      and l: "length res = length data"
      and p: "\<forall>i. i < length data \<longrightarrow>
               res ! i = (data ! i + predict 2 (left_of ?bpp res i) (prior ! i)
                             (left_of ?bpp prior i)) mod 256"
      by auto
    from row 3 r ps pl(2) have
      "defilter_row fscale s (tag # data) = Inr (s\<lparr>rgba := rgba s @ res\<rparr>)"
      by simp
    with 3 l p show ?thesis by auto
  next
    case 4
    from average_loop_table[OF b1 b8 pl(1), of "[]" 0 "rgba s", unfolded bi] 4
    obtain res where
      r: "average_loop (num_channels s) (replicate 8 0 @ data) (replicate 8 0 @ prior) (rgba s)
            [0..?n] = Inr (rgba s @ res)"
      and l: "length res = length data"
      and p: "\<forall>i. i < length data \<longrightarrow>
               res ! i = (data ! i + predict 3 (left_of ?bpp res i) (prior ! i)
                             (left_of ?bpp prior i)) mod 256"
      by auto
    from row 4 r ps have
      "defilter_row fscale s (tag # data) = Inr (s\<lparr>rgba := rgba s @ res\<rparr>)"
      by simp
    with 4 l p show ?thesis by auto
  next
    case 5
    from paeth_loop_table[OF b1 b8 pl(1), of "[]" 0 "rgba s", unfolded bi] 5
    obtain res where
      r: "paeth_loop (num_channels s) (replicate 8 0 @ data) (replicate 8 0 @ prior) (rgba s)
            [0..?n] = Inr (rgba s @ res)"
      and l: "length res = length data"
      and p: "\<forall>i. i < length data \<longrightarrow>
               res ! i = (data ! i + predict 4 (left_of ?bpp res i) (prior ! i)
                             (left_of ?bpp prior i)) mod 256"
      by auto
    from row 5 r ps have
      "defilter_row fscale s (tag # data) = Inr (s\<lparr>rgba := rgba s @ res\<rparr>)"
      by simp
    with 5 l p show ?thesis by auto
  qed
qed

section \<open>Properties\<close>

text \<open>
  C1. The claim: every row whose filter tag is in 0..4 is reconstructed byte by byte
  by the table rule of its tag, on the unpacked row. The code does not do so on every
  such row. On a row of a 4-bit grey image with tag 1 (Sub) the packed byte \<open>0x12\<close>
  unpacks to the two samples 1 and 2, which the rule reconstructs to 1 and 3; the loop
  runs over the packed length only and appends the single byte 1. On the first row of
  an 8-bit image with tag 3 (Average) the rule gives byte 5 for the raw byte 5; the
  code raises \<^verbatim>\<open>IndexError\<close>.
\<close>

theorem defilter_row_departs_from_table:
  "ExplodeBytes fscale [0x12] 4 False = Inr [1, 2]
   \<and> defilter_row fscale (init_state\<lparr>w := 2, h := 1, num_channels := 1, bit_depth := 4\<rparr>) [1, 0x12]
       = Inr (init_state\<lparr>w := 2, h := 1, num_channels := 1, bit_depth := 4, rgba := [1]\<rparr>)
   \<and> defilter_row fscale (init_state\<lparr>w := 1, h := 1, num_channels := 1, bit_depth := 8\<rparr>) [3, 5]
       = Inl IndexError"
  by code_simp

text \<open>
  C2. For all integers \<open>a\<close>, \<open>b\<close>, \<open>c\<close> the predictor of the source is the predictor of
  the specification: with \<open>p = a + b - c\<close> on unbounded integers it returns \<open>a\<close> when
  \<open>|p - a|\<close> is at most both other distances, else \<open>b\<close> when \<open>|p - b| \<le> |p - c|\<close>, else
  \<open>c\<close>. In particular \<open>PaethPredictor 10 10 10 = 10\<close> and \<open>PaethPredictor 0 0 10 = 0\<close>
  (\<open>a\<close> wins the tie with \<open>b\<close>).
\<close>

theorem PaethPredictor_spec:
  "PaethPredictor a b c = paeth_spec a b c
   \<and> PaethPredictor a b c =
       (if \<bar>(a + b - c) - a\<bar> \<le> \<bar>(a + b - c) - b\<bar> \<and> \<bar>(a + b - c) - a\<bar> \<le> \<bar>(a + b - c) - c\<bar> then a
        else if \<bar>(a + b - c) - b\<bar> \<le> \<bar>(a + b - c) - c\<bar> then b else c)
   \<and> PaethPredictor 10 10 10 = 10
   \<and> PaethPredictor 0 0 10 = 0"
  by (simp add: PaethPredictor_def paeth_spec_def Let_def min_def)

text \<open>
  C3. The claim: on row 0 the prior row of the Up, Average and Paeth filters is a row of
  zero bytes, so an Up-filtered row 0 reconstructs to its raw bytes. In the code, on the
  first row (nothing reconstructed yet) of an 8-bit image with at least one data byte,
  tag 2 raises \<^verbatim>\<open>TypeError\<close> and tags 3 and 4 raise \<^verbatim>\<open>IndexError\<close>: no row is
  reconstructed.
\<close>

theorem first_row_prior_raises:
  assumes "rgba s = []" and "bit_depth s = 8" and "data \<noteq> []"
  shows "defilter_row fscale s (2 # data) = Inl TypeError
       \<and> defilter_row fscale s (3 # data) = Inl IndexError
       \<and> defilter_row fscale s (4 # data) = Inl IndexError"
proof -
  obtain d ds where d: "data = d # ds" using assms(3) by (cases data) auto
  have idx: "[0..int (length (t # data)) - 1 - 1] = 0 # [1..int (length ds)]" for t :: int
    unfolding d by (subst upto.simps) simp
  have pr: "py_slice_from (rgba s) a = []" for a
    by (simp add: py_slice_from_def assms(1))
  have ex: "ExplodeBytes fscale (py_slice_from (t # data) 1) (bit_depth s) ix = Inr data" for t ix
    by (simp add: ExplodeBytes_def assms(2) py_slice_from_def py_bound_def)
  have p8: "py_index (replicate 8 (0::int)) 8 = Inl IndexError"
    by (simp add: py_index_def)
  have b8: "py_index (replicate 8 0 @ data) 8 = Inr d"
    unfolding d by (simp add: py_index_def nth_append)
  have up: "defilter_row fscale s (2 # data) = Inl TypeError"
    by (simp add: defilter_row_def Let_def py_index_def ex pr)
  have av: "defilter_row fscale s (3 # data) = Inl IndexError"
    unfolding defilter_row_def Let_def idx ex pr
    by (cases "py_index (replicate 8 0 @ data) (8 - num_channels s)")
       (auto simp add: py_index_def[of "3 # data"] p8 b8 dest: py_index_Inl)
  have pa: "defilter_row fscale s (4 # data) = Inl IndexError"
    unfolding defilter_row_def Let_def idx ex pr
    by (cases "py_index (replicate 8 0 @ data) (8 - num_channels s)")
       (auto simp add: py_index_def[of "4 # data"] p8 b8 dest: py_index_Inl)
  from up av pa show ?thesis by simp
qed

theorem first_row_prior_raises_witness:
  "rgba (init_state\<lparr>w := 1, h := 1, num_channels := 1, bit_depth := 8\<rparr>) = []
   \<and> bit_depth (init_state\<lparr>w := 1, h := 1, num_channels := 1, bit_depth := 8\<rparr>) = 8
   \<and> [5 :: int] \<noteq> []
   \<and> defilter_row (\<lambda>bits x. Inr x)
        (init_state\<lparr>w := 1, h := 1, num_channels := 1, bit_depth := 8\<rparr>) [2, 5] = Inl TypeError
   \<and> defilter_row (\<lambda>bits x. Inr x)
        (init_state\<lparr>w := 1, h := 1, num_channels := 1, bit_depth := 8\<rparr>) [3, 5] = Inl IndexError
   \<and> defilter_row (\<lambda>bits x. Inr x)
        (init_state\<lparr>w := 1, h := 1, num_channels := 1, bit_depth := 8\<rparr>) [4, 5] = Inl IndexError"
proof -
  have 1: "rgba (init_state\<lparr>w := 1, h := 1, num_channels := 1, bit_depth := 8\<rparr>) = []"
    by (simp add: init_state_def)
  have 2: "bit_depth (init_state\<lparr>w := 1, h := 1, num_channels := 1, bit_depth := 8\<rparr>) = 8"
    by simp
  have 3: "[5 :: int] \<noteq> []" by simp
  from first_row_prior_raises[OF 1 2 3, of "\<lambda>bits x. Inr x"] 1 2 3 show ?thesis by simp
qed

text \<open>
  C4. The claim: for a non-indexed image of bit depth 1, 2 or 4 every unpacked sample is
  rescaled to \<open>0..255\<close>, the largest sample to 255. In the code the unpacker returns the
  raw groups of each byte whatever the colour mode, because the normalizer it asks for
  is always the identity: the all-ones byte unpacks to 15s, 3s and 1s, not to 255s.
  (The second half of the claim, that indexed samples pass through unscaled, is the
  case \<open>is_indexed = True\<close> of the first three equations.)
\<close>

theorem ExplodeBytes_sub_byte_unscaled:
  "ExplodeBytes fscale data 4 is_indexed = Inr (concat (map groups4 data))
   \<and> ExplodeBytes fscale data 2 is_indexed = Inr (concat (map groups2 data))
   \<and> ExplodeBytes fscale data 1 is_indexed = Inr (concat (map groups1 data))
   \<and> ExplodeBytes fscale [0xFF] 4 False = Inr [15, 15]
   \<and> ExplodeBytes fscale [0xFF] 2 False = Inr [3, 3, 3, 3]
   \<and> ExplodeBytes fscale [0xFF] 1 False = Inr [1, 1, 1, 1, 1, 1, 1, 1]"
  by (simp add: ExplodeBytes_def GetNormalizer_def emap_Inr groups4_def groups2_def groups1_def)

text \<open>
  C5. The claim: at bit depth 16 each pair (high byte, low byte) yields the high byte,
  plus one (saturating) when the low byte is at least 128. In the code the 16-bit
  branch raises \<^verbatim>\<open>TypeError\<close> on every input, before the first pair is read: the
  bound of its \<^verbatim>\<open>range\<close> is a float.
\<close>

theorem ExplodeBytes_16_raises:
  "ExplodeBytes fscale data 16 is_indexed = Inl TypeError"
  by (simp add: ExplodeBytes_def py_truediv_def py_range0_def)

text \<open>
  C6 (as amended). For every image whose row takes a whole number of bytes (8 divides
  \<open>width * channels * bit_depth\<close>) and whose decompressed stream holds all \<open>height\<close>
  rows (at least \<open>height * (1 + ceil(width * channels * bit_depth / 8))\<close> bytes): the
  reconstruction is the row pass over exactly \<open>height\<close> rows, each of them one
  filter-tag byte followed by \<open>ceil(width * channels * bit_depth / 8)\<close> data bytes, the
  rows being the first \<open>height * (1 + ceil(...))\<close> bytes of the stream in order.
\<close>

theorem decompress_reads_whole_byte_rows:
  assumes d: "8 dvd w s * num_channels s * bit_depth s"
    and nn: "0 \<le> w s * num_channels s * bit_depth s"
    and h0: "0 \<le> h s"
    and inf: "inflate (idat_data s) = Inr ddat"
    and len: "h s * (1 + packed_row_bytes s) \<le> int (length ddat)"
  shows "decompress inflate fscale s = defilter_rows fscale s (stated_rows s ddat)
       \<and> length (stated_rows s ddat) = nat (h s)
       \<and> list_all (\<lambda>brow. \<exists>tag data. brow = tag # data
                      \<and> int (length data) = packed_row_bytes s) (stated_rows s ddat)
       \<and> concat (stated_rows s ddat) = take (nat (h s * (1 + packed_row_bytes s))) ddat"
proof -
  from d obtain q where q: "w s * num_channels s * bit_depth s = 8 * q" by (auto elim: dvdE)
  have p: "packed_row_bytes s = q" by (simp add: packed_row_bytes_def q)
  have st: "row_stride s = 1 + q" by (simp add: row_stride_def q)
  have q0: "0 \<le> q" using nn q by simp
  let ?n = "nat (1 + q)"
  have sr: "stated_rows s ddat = map (\<lambda>j. take ?n (drop (j * ?n) ddat)) [0..<nat (h s)]"
    by (simp add: stated_rows_def p)
  have sc: "scanline ddat (row_stride s) i = take ?n (drop (nat i * ?n) ddat)"
    if "0 \<le> i" for i
    using that q0 by (simp add: scanline_nat st)
  have up: "[0..h s - 1] = map int [0..<nat (h s)]"
    using upto_as_upt[of "nat (h s)"] h0 by simp
  have rows: "map (scanline ddat (row_stride s)) [0..h s - 1] = stated_rows s ddat"
    by (simp add: up sr sc comp_def)
  have A: "decompress inflate fscale s = defilter_rows fscale s (stated_rows s ddat)"
    by (simp add: decompress_def inf rows_loop_foldl rows defilter_rows_def)
  have B: "length (stated_rows s ddat) = nat (h s)" by (simp add: sr)
  have hn: "nat (h s) * ?n \<le> length ddat"
  proof -
    have e: "int (nat (h s) * ?n) = h s * (1 + q)" using h0 q0 by simp
    from len have "h s * (1 + q) \<le> int (length ddat)" by (simp add: p)
    then have "int (nat (h s) * ?n) \<le> int (length ddat)" by (simp only: e)
    then show ?thesis by (simp only: of_nat_le_iff)
  qed
  have C: "list_all (\<lambda>brow. \<exists>tag data. brow = tag # data
                      \<and> int (length data) = packed_row_bytes s) (stated_rows s ddat)"
    unfolding sr list_all_iff
  proof
    fix brow assume "brow \<in> set (map (\<lambda>j. take ?n (drop (j * ?n) ddat)) [0..<nat (h s)])"
    then obtain j where j: "j < nat (h s)" and b: "brow = take ?n (drop (j * ?n) ddat)" by auto
    have "Suc j * ?n \<le> nat (h s) * ?n" using j by (intro mult_le_mono1) simp
    with hn have "j * ?n + ?n \<le> length ddat" by simp
    then have l: "length brow = ?n" unfolding b by (rule length_take_drop)
    then obtain tag data where td: "brow = tag # data" using q0 by (cases brow) auto
    with l have "int (length data) = q" using q0 by simp
    with td p show "\<exists>tag data. brow = tag # data \<and> int (length data) = packed_row_bytes s"
      by simp
  qed
  have D: "concat (stated_rows s ddat) = take (nat (h s * (1 + packed_row_bytes s))) ddat"
    using h0 q0 by (simp add: sr rows_tile p nat_mult_distrib)
  from A B C D show ?thesis by simp
qed

theorem decompress_reads_whole_byte_rows_witness:
  "8 dvd w (init_state\<lparr>w := 2, h := 2, num_channels := 1, bit_depth := 4\<rparr>)
         * num_channels (init_state\<lparr>w := 2, h := 2, num_channels := 1, bit_depth := 4\<rparr>)
         * bit_depth (init_state\<lparr>w := 2, h := 2, num_channels := 1, bit_depth := 4\<rparr>)
   \<and> h (init_state\<lparr>w := 2, h := 2, num_channels := 1, bit_depth := 4\<rparr>)
       * (1 + packed_row_bytes (init_state\<lparr>w := 2, h := 2, num_channels := 1, bit_depth := 4\<rparr>))
       \<le> int (length [0, 18, 0, 52 :: int])
   \<and> stated_rows (init_state\<lparr>w := 2, h := 2, num_channels := 1, bit_depth := 4\<rparr>) [0, 18, 0, 52]
       = [[0, 18], [0, 52]]
   \<and> decompress (\<lambda>idat. Inr [0, 18, 0, 52]) (\<lambda>bits x. Inr x)
        (init_state\<lparr>w := 2, h := 2, num_channels := 1, bit_depth := 4\<rparr>)
       = defilter_rows (\<lambda>bits x. Inr x)
           (init_state\<lparr>w := 2, h := 2, num_channels := 1, bit_depth := 4\<rparr>) [[0, 18], [0, 52]]"
proof -
  let ?s = "init_state\<lparr>w := 2, h := 2, num_channels := 1, bit_depth := 4\<rparr>"
  have pb: "packed_row_bytes ?s = 1" by (simp add: packed_row_bytes_def)
  have 1: "8 dvd w ?s * num_channels ?s * bit_depth ?s" by simp
  have 2: "0 \<le> w ?s * num_channels ?s * bit_depth ?s" by simp
  have 3: "0 \<le> h ?s" by simp
  have 4: "(\<lambda>idat. Inr [0, 18, 0, 52 :: int]) (idat_data ?s) = (Inr [0, 18, 0, 52] :: error + int list)"
    by simp
  have 5: "h ?s * (1 + packed_row_bytes ?s) \<le> int (length [0, 18, 0, 52 :: int])"
    by (simp add: pb)
  have 6: "stated_rows ?s [0, 18, 0, 52] = [[0, 18], [0, 52]]"
    by (simp add: stated_rows_def pb upt_rec)
  from decompress_reads_whole_byte_rows[OF 1 2 3 4 5, of "\<lambda>bits x. Inr x"] 1 5 6
  show ?thesis by simp
qed

text \<open>
  C6, the claim as stated fails. For a 1-bit grey image of width 3 the row the
  specification states is the tag and \<open>ceil(3 / 8) = 1\<close> data byte, whose pass yields the
  samples of that byte; the code reads the tag alone and reconstructs nothing. And
  without a stream that holds all rows the rows are not of the stated length either: for
  a 2 by 2 image of depth 8 the stream of five bytes is decoded without an exception,
  its second row having one data byte where \<open>ceil(16 / 8) = 2\<close> are stated.
\<close>

theorem row_layout_counterexample:
  "stated_rows (init_state\<lparr>w := 3, h := 1, num_channels := 1, bit_depth := 1\<rparr>) [0, 224] = [[0, 224]]
   \<and> defilter_rows (\<lambda>bits x. Inr x) (init_state\<lparr>w := 3, h := 1, num_channels := 1, bit_depth := 1\<rparr>) [[0, 224]]
       = Inr (init_state\<lparr>w := 3, h := 1, num_channels := 1, bit_depth := 1,
                          rgba := [1, 1, 1, 0, 0, 0, 0, 0]\<rparr>)
   \<and> decompress (\<lambda>idat. Inr [0, 224]) (\<lambda>bits x. Inr x) (init_state\<lparr>w := 3, h := 1, num_channels := 1, bit_depth := 1\<rparr>)
       = Inr (init_state\<lparr>w := 3, h := 1, num_channels := 1, bit_depth := 1\<rparr>)
   \<and> packed_row_bytes (init_state\<lparr>w := 2, h := 2, num_channels := 1, bit_depth := 8\<rparr>) = 2
   \<and> stated_rows (init_state\<lparr>w := 2, h := 2, num_channels := 1, bit_depth := 8\<rparr>) [0, 1, 2, 0, 5] = [[0, 1, 2], [0, 5]]
   \<and> decompress (\<lambda>idat. Inr [0, 1, 2, 0, 5]) (\<lambda>bits x. Inr x) (init_state\<lparr>w := 2, h := 2, num_channels := 1, bit_depth := 8\<rparr>)
       = Inr (init_state\<lparr>w := 2, h := 2, num_channels := 1, bit_depth := 8, rgba := [1, 2, 5]\<rparr>)"
proof -
  have f1: "stated_rows (init_state\<lparr>w := 3, h := 1, num_channels := 1, bit_depth := 1\<rparr>) [0, 224] = [[0, 224]]"
    by (simp add: stated_rows_def packed_row_bytes_def init_state_def)
  have f2: "defilter_rows (\<lambda>bits x. Inr x) (init_state\<lparr>w := 3, h := 1, num_channels := 1, bit_depth := 1\<rparr>) [[0, 224]]
       = Inr (init_state\<lparr>w := 3, h := 1, num_channels := 1, bit_depth := 1,
                          rgba := [1, 1, 1, 0, 0, 0, 0, 0]\<rparr>)"
    by code_simp
  have f3: "decompress (\<lambda>idat. Inr [0, 224]) (\<lambda>bits x. Inr x) (init_state\<lparr>w := 3, h := 1, num_channels := 1, bit_depth := 1\<rparr>)
       = Inr (init_state\<lparr>w := 3, h := 1, num_channels := 1, bit_depth := 1\<rparr>)"
    by code_simp
  have f4: "packed_row_bytes (init_state\<lparr>w := 2, h := 2, num_channels := 1, bit_depth := 8\<rparr>) = 2"
    by (simp add: packed_row_bytes_def init_state_def)
  have f5: "stated_rows (init_state\<lparr>w := 2, h := 2, num_channels := 1, bit_depth := 8\<rparr>) [0, 1, 2, 0, 5] = [[0, 1, 2], [0, 5]]"
    by (simp add: stated_rows_def packed_row_bytes_def init_state_def upt_rec)
  have f6: "decompress (\<lambda>idat. Inr [0, 1, 2, 0, 5]) (\<lambda>bits x. Inr x) (init_state\<lparr>w := 2, h := 2, num_channels := 1, bit_depth := 8\<rparr>)
       = Inr (init_state\<lparr>w := 2, h := 2, num_channels := 1, bit_depth := 8, rgba := [1, 2, 5]\<rparr>)"
    by code_simp
  from f1 f2 f3 f4 f5 f6 show ?thesis by simp
qed

text \<open>
  C7. The claim: \<^verbatim>\<open>get\<close> leaves the pixel buffer and the palette unchanged, for
  indexed images too. In the code the first \<^verbatim>\<open>get\<close> on a pixel of an indexed image
  appends 255 to the palette entry it reads. The decoder below is the one constructed
  from a 1 by 1 indexed image with the one-entry palette (1, 2, 3) whose image data
  decompress to the bytes 0, 0; after \<^verbatim>\<open>get(0, 0)\<close> its palette entry is
  (1, 2, 3, 255). A second call returns the same tuple and changes nothing more.
\<close>

theorem get_appends_to_palette:
  "PngDecode (\<lambda>idat. Inr [0, 0]) fscale
     (magic @ [0, 0, 0, 13, 73, 72, 68, 82, 0, 0, 0, 1, 0, 0, 0, 1, 8, 3, 0, 0, 0, 0, 0, 0, 0]
            @ [0, 0, 0, 3, 80, 76, 84, 69, 1, 2, 3, 0, 0, 0, 0]
            @ [0, 0, 0, 1, 73, 68, 65, 84, 9, 0, 0, 0, 0]
            @ [0, 0, 0, 0, 73, 69, 78, 68, 0, 0, 0, 0])
     = Inr \<lparr>w = 1, h = 1, color_type = 3, num_channels = 1, bit_depth = 8, compression = 0,
            filter_method = Some 0, interlace = Some 0, rgba = [0], idat_data = [9],
            palette = Some [[1, 2, 3]]\<rparr>
   \<and> get \<lparr>w = 1, h = 1, color_type = 3, num_channels = 1, bit_depth = 8, compression = 0,
            filter_method = Some 0, interlace = Some 0, rgba = [0], idat_data = [9],
            palette = Some [[1, 2, 3]]\<rparr> 0 0
     = Inr ((1, 2, 3, 255),
            \<lparr>w = 1, h = 1, color_type = 3, num_channels = 1, bit_depth = 8, compression = 0,
             filter_method = Some 0, interlace = Some 0, rgba = [0], idat_data = [9],
             palette = Some [[1, 2, 3, 255]]\<rparr>)
   \<and> get \<lparr>w = 1, h = 1, color_type = 3, num_channels = 1, bit_depth = 8, compression = 0,
            filter_method = Some 0, interlace = Some 0, rgba = [0], idat_data = [9],
            palette = Some [[1, 2, 3, 255]]\<rparr> 0 0
     = Inr ((1, 2, 3, 255),
            \<lparr>w = 1, h = 1, color_type = 3, num_channels = 1, bit_depth = 8, compression = 0,
             filter_method = Some 0, interlace = Some 0, rgba = [0], idat_data = [9],
             palette = Some [[1, 2, 3, 255]]\<rparr>)"
  by code_simp

text \<open>
  C8 (as amended). For every \<^verbatim>\<open>PLTE\<close> payload the handler returns without raising.
  It installs a palette if and only if a third of the payload length, rounded down, is
  between 1 and 255, that is the length is between 3 and 767; the palette then has that
  many entries, entry \<open>i\<close> being the bytes \<open>3i\<close>, \<open>3i + 1\<close>, \<open>3i + 2\<close> of the payload,
  and one or two trailing bytes are dropped. Any other payload leaves the decoder as it
  was.
\<close>

theorem PLTE_installs:
  "PLTE s bchd =
     (if 3 \<le> length bchd \<and> length bchd \<le> 767
      then Inr (s\<lparr>palette :=
             Some (map (\<lambda>i. [bchd ! (3 * i), bchd ! (3 * i + 1), bchd ! (3 * i + 2)])
                     [0..<length bchd div 3])\<rparr>)
      else Inr s)"
proof -
  have sz: "int (length bchd) div 3 = int (length bchd div 3)" by (simp add: zdiv_int)
  have em: "emap (plte_entry bchd) [0..int (length bchd div 3) - 1]
      = Inr (map (\<lambda>i. [bchd ! (3 * i), bchd ! (3 * i + 1), bchd ! (3 * i + 2)])
               [0..<length bchd div 3])"
  proof -
    have "emap (plte_entry bchd) (map int [0..<length bchd div 3])
        = Inr (map (\<lambda>x. [bchd ! (3 * nat x), bchd ! (3 * nat x + 1), bchd ! (3 * nat x + 2)])
                 (map int [0..<length bchd div 3]))"
      by (rule emap_map) (auto simp add: plte_entry_in_range)
    then show ?thesis by (simp add: upto_as_upt comp_def)
  qed
  have g: "(length bchd div 3 = 0 \<or> 255 < length bchd div 3)
             = (\<not> (3 \<le> length bchd \<and> length bchd \<le> 767))"
    by linarith
  show ?thesis
  proof (cases "3 \<le> length bchd \<and> length bchd \<le> 767")
    case True
    with g have "\<not> (length bchd div 3 = 0 \<or> 255 < length bchd div 3)" by simp
    with True show ?thesis
      unfolding PLTE_def Let_def sz by (simp add: em)
  next
    case False
    with g have "length bchd div 3 = 0 \<or> 255 < length bchd div 3" by simp
    with False show ?thesis
      unfolding PLTE_def Let_def sz by auto
  qed
qed

text \<open>
  C8, the claim as stated fails: a payload of four bytes, whose length is not a
  multiple of 3, installs a palette of one entry.
\<close>

theorem PLTE_remainder_counterexample:
  "\<not> 3 dvd length [1, 2, 3, 4 :: int]
   \<and> PLTE init_state [1, 2, 3, 4] = Inr (init_state\<lparr>palette := Some [[1, 2, 3]]\<rparr>)"
proof -
  have l4: "length [1, 2, 3, 4 :: int] = 4" by simp
  have "\<not> 3 dvd length [1, 2, 3, 4 :: int]" by (subst l4) presburger
  moreover have
    "PLTE init_state [1, 2, 3, 4] = Inr (init_state\<lparr>palette := Some [[1, 2, 3]]\<rparr>)"
    by (simp add: PLTE_def Let_def plte_entry_def py_index_def upto.simps init_state_def)
  ultimately show ?thesis by simp
qed

text \<open>
  C9 (as amended). For every input stream whose chunk parse and reconstruction complete:
  the construction fails with the missing-palette error exactly when the header has
  declared colour type 3 and no chunk record the read loop dispatched installed a
  palette, and returns the decoder otherwise. That error is raised by the check after
  the parse only: the read loop, the image-data handler included, never raises it, nor
  does the reconstruction (the decompressor not raising it). A stream whose parse itself
  raises fails with that exception. The construction never returns a decoder of colour
  type 3 without a palette.
\<close>

theorem missing_palette_after_parse:
  "(parse inflate fscale init_state f = Inr s \<longrightarrow>
      PngDecode inflate fscale f =
        (if color_type s = 3
            \<and> list_all (\<lambda>(bcht, bchd). \<not> installs_palette bcht bchd)
                 (dispatched init_state (drop 8 f))
         then Inl MissingPalette else Inr s))
   \<and> (parse inflate fscale init_state f = Inl e \<longrightarrow> PngDecode inflate fscale f = Inl e)
   \<and> parse_loop init_state (drop 8 f) \<noteq> Inl MissingPalette
   \<and> ((\<forall>d. inflate d \<noteq> Inl MissingPalette)
        \<longrightarrow> parse inflate fscale init_state f \<noteq> Inl MissingPalette)
   \<and> (PngDecode inflate fscale f = Inr s \<longrightarrow> \<not> (color_type s = 3 \<and> palette s = None))"
proof -
  have pal: "(palette s1 = None)
      = list_all (\<lambda>(bcht, bchd). \<not> installs_palette bcht bchd) (dispatched init_state (drop 8 f))"
    if "parse inflate fscale init_state f = Inr s1" for s1
  proof -
    from that obtain s0 where
      a: "parse_loop init_state (drop 8 f) = Inr s0" and
      b: "decompress inflate fscale s0 = Inr s1"
      by (auto simp add: parse_def Let_def ebind_eq_Inr split: if_splits)
    from parse_loop_palette_iff[OF a] have
      "(palette s0 = None)
        = list_all (\<lambda>(bcht, bchd). \<not> installs_palette bcht bchd)
            (dispatched init_state (drop 8 f))"
      by (simp add: init_state_def)
    with decompress_frame[OF b] show ?thesis by simp
  qed
  have A: "parse inflate fscale init_state f = Inr s \<longrightarrow>
      PngDecode inflate fscale f =
        (if color_type s = 3
            \<and> list_all (\<lambda>(bcht, bchd). \<not> installs_palette bcht bchd)
                 (dispatched init_state (drop 8 f))
         then Inl MissingPalette else Inr s)"
    using pal[of s] by (auto simp add: PngDecode_def)
  have B: "parse inflate fscale init_state f = Inl e \<longrightarrow> PngDecode inflate fscale f = Inl e"
    by (simp add: PngDecode_def)
  have C: "parse_loop init_state (drop 8 f) \<noteq> Inl MissingPalette"
    by (rule parse_loop_not_missing)
  have D: "(\<forall>d. inflate d \<noteq> Inl MissingPalette)
        \<longrightarrow> parse inflate fscale init_state f \<noteq> Inl MissingPalette"
    using parse_not_missing by blast
  have E: "PngDecode inflate fscale f = Inr s \<longrightarrow> \<not> (color_type s = 3 \<and> palette s = None)"
    by (auto simp add: PngDecode_def ebind_eq_Inr split: if_splits)
  from A B C D E show ?thesis by blast
qed

text \<open>
  The witness: an indexed image without a palette chunk, the same stream with a
  \<^verbatim>\<open>PLTE\<close> chunk behind \<^verbatim>\<open>IEND\<close> (never dispatched), and an indexed header
  that declares the interlace method 1.
\<close>

theorem missing_palette_after_parse_witness:
  "parse (\<lambda>idat. Inr [0, 0]) (\<lambda>bits x. Inr x) init_state
     (magic @ [0, 0, 0, 13, 73, 72, 68, 82, 0, 0, 0, 1, 0, 0, 0, 1, 8, 3, 0, 0, 0, 0, 0, 0, 0]
            @ [0, 0, 0, 1, 73, 68, 65, 84, 9, 0, 0, 0, 0]
            @ [0, 0, 0, 0, 73, 69, 78, 68, 0, 0, 0, 0])
     = Inr \<lparr>w = 1, h = 1, color_type = 3, num_channels = 1, bit_depth = 8, compression = 0,
            filter_method = Some 0, interlace = Some 0, rgba = [0], idat_data = [9],
            palette = None\<rparr>
   \<and> list_all (\<lambda>(bcht, bchd). \<not> installs_palette bcht bchd)
     (dispatched init_state (drop 8
     (magic @ [0, 0, 0, 13, 73, 72, 68, 82, 0, 0, 0, 1, 0, 0, 0, 1, 8, 3, 0, 0, 0, 0, 0, 0, 0]
            @ [0, 0, 0, 1, 73, 68, 65, 84, 9, 0, 0, 0, 0]
            @ [0, 0, 0, 0, 73, 69, 78, 68, 0, 0, 0, 0])))
   \<and> parse (\<lambda>idat. Inr [0, 0]) (\<lambda>bits x. Inr x) init_state
     (magic @ [0, 0, 0, 13, 73, 72, 68, 82, 0, 0, 0, 1, 0, 0, 0, 1, 8, 3, 0, 0, 0, 0, 0, 0, 0]
            @ [0, 0, 0, 1, 73, 68, 65, 84, 9, 0, 0, 0, 0]
            @ [0, 0, 0, 0, 73, 69, 78, 68, 0, 0, 0, 0]
            @ [0, 0, 0, 3, 80, 76, 84, 69, 1, 2, 3, 0, 0, 0, 0])
     = Inr \<lparr>w = 1, h = 1, color_type = 3, num_channels = 1, bit_depth = 8, compression = 0,
            filter_method = Some 0, interlace = Some 0, rgba = [0], idat_data = [9],
            palette = None\<rparr>
   \<and> list_all (\<lambda>(bcht, bchd). \<not> installs_palette bcht bchd)
     (dispatched init_state (drop 8
     (magic @ [0, 0, 0, 13, 73, 72, 68, 82, 0, 0, 0, 1, 0, 0, 0, 1, 8, 3, 0, 0, 0, 0, 0, 0, 0]
            @ [0, 0, 0, 1, 73, 68, 65, 84, 9, 0, 0, 0, 0]
            @ [0, 0, 0, 0, 73, 69, 78, 68, 0, 0, 0, 0]
            @ [0, 0, 0, 3, 80, 76, 84, 69, 1, 2, 3, 0, 0, 0, 0])))
   \<and> parse (\<lambda>idat. Inr [0, 0]) (\<lambda>bits x. Inr x) init_state
     (magic @ [0, 0, 0, 13, 73, 72, 68, 82, 0, 0, 0, 1, 0, 0, 0, 1, 8, 3, 0, 0, 1, 0, 0, 0, 0])
     = Inl UnsupportedInterlace
   \<and> PngDecode (\<lambda>idat. Inr [0, 0]) (\<lambda>bits x. Inr x)
     (magic @ [0, 0, 0, 13, 73, 72, 68, 82, 0, 0, 0, 1, 0, 0, 0, 1, 8, 3, 0, 0, 0, 0, 0, 0, 0]
            @ [0, 0, 0, 1, 73, 68, 65, 84, 9, 0, 0, 0, 0]
            @ [0, 0, 0, 0, 73, 69, 78, 68, 0, 0, 0, 0])
     = Inl MissingPalette
   \<and> PngDecode (\<lambda>idat. Inr [0, 0]) (\<lambda>bits x. Inr x)
     (magic @ [0, 0, 0, 13, 73, 72, 68, 82, 0, 0, 0, 1, 0, 0, 0, 1, 8, 3, 0, 0, 0, 0, 0, 0, 0]
            @ [0, 0, 0, 1, 73, 68, 65, 84, 9, 0, 0, 0, 0]
            @ [0, 0, 0, 0, 73, 69, 78, 68, 0, 0, 0, 0]
            @ [0, 0, 0, 3, 80, 76, 84, 69, 1, 2, 3, 0, 0, 0, 0])
     = Inl MissingPalette
   \<and> PngDecode (\<lambda>idat. Inr [0, 0]) (\<lambda>bits x. Inr x)
     (magic @ [0, 0, 0, 13, 73, 72, 68, 82, 0, 0, 0, 1, 0, 0, 0, 1, 8, 3, 0, 0, 1, 0, 0, 0, 0])
     = Inl UnsupportedInterlace"
proof -
  have f1: "parse (\<lambda>idat. Inr [0, 0]) (\<lambda>bits x. Inr x) init_state
     (magic @ [0, 0, 0, 13, 73, 72, 68, 82, 0, 0, 0, 1, 0, 0, 0, 1, 8, 3, 0, 0, 0, 0, 0, 0, 0]
            @ [0, 0, 0, 1, 73, 68, 65, 84, 9, 0, 0, 0, 0]
            @ [0, 0, 0, 0, 73, 69, 78, 68, 0, 0, 0, 0])
     = Inr \<lparr>w = 1, h = 1, color_type = 3, num_channels = 1, bit_depth = 8, compression = 0,
            filter_method = Some 0, interlace = Some 0, rgba = [0], idat_data = [9],
            palette = None\<rparr>"
    by code_simp
  have f2: "list_all (\<lambda>(bcht, bchd). \<not> installs_palette bcht bchd)
     (dispatched init_state (drop 8
     (magic @ [0, 0, 0, 13, 73, 72, 68, 82, 0, 0, 0, 1, 0, 0, 0, 1, 8, 3, 0, 0, 0, 0, 0, 0, 0]
            @ [0, 0, 0, 1, 73, 68, 65, 84, 9, 0, 0, 0, 0]
            @ [0, 0, 0, 0, 73, 69, 78, 68, 0, 0, 0, 0])))"
    by code_simp
  have f3: "parse (\<lambda>idat. Inr [0, 0]) (\<lambda>bits x. Inr x) init_state
     (magic @ [0, 0, 0, 13, 73, 72, 68, 82, 0, 0, 0, 1, 0, 0, 0, 1, 8, 3, 0, 0, 0, 0, 0, 0, 0]
            @ [0, 0, 0, 1, 73, 68, 65, 84, 9, 0, 0, 0, 0]
            @ [0, 0, 0, 0, 73, 69, 78, 68, 0, 0, 0, 0]
            @ [0, 0, 0, 3, 80, 76, 84, 69, 1, 2, 3, 0, 0, 0, 0])
     = Inr \<lparr>w = 1, h = 1, color_type = 3, num_channels = 1, bit_depth = 8, compression = 0,
            filter_method = Some 0, interlace = Some 0, rgba = [0], idat_data = [9],
            palette = None\<rparr>"
    by code_simp
  have f4: "list_all (\<lambda>(bcht, bchd). \<not> installs_palette bcht bchd)
     (dispatched init_state (drop 8
     (magic @ [0, 0, 0, 13, 73, 72, 68, 82, 0, 0, 0, 1, 0, 0, 0, 1, 8, 3, 0, 0, 0, 0, 0, 0, 0]
            @ [0, 0, 0, 1, 73, 68, 65, 84, 9, 0, 0, 0, 0]
            @ [0, 0, 0, 0, 73, 69, 78, 68, 0, 0, 0, 0]
            @ [0, 0, 0, 3, 80, 76, 84, 69, 1, 2, 3, 0, 0, 0, 0])))"
    by code_simp
  have f5: "parse (\<lambda>idat. Inr [0, 0]) (\<lambda>bits x. Inr x) init_state
     (magic @ [0, 0, 0, 13, 73, 72, 68, 82, 0, 0, 0, 1, 0, 0, 0, 1, 8, 3, 0, 0, 1, 0, 0, 0, 0])
     = Inl UnsupportedInterlace"
    by code_simp
  from missing_palette_after_parse[of "(\<lambda>idat. Inr [0, 0])" "(\<lambda>bits x. Inr x)"
      "(magic @ [0, 0, 0, 13, 73, 72, 68, 82, 0, 0, 0, 1, 0, 0, 0, 1, 8, 3, 0, 0, 0, 0, 0, 0, 0]
            @ [0, 0, 0, 1, 73, 68, 65, 84, 9, 0, 0, 0, 0]
            @ [0, 0, 0, 0, 73, 69, 78, 68, 0, 0, 0, 0])"
      "\<lparr>w = 1, h = 1, color_type = 3, num_channels = 1, bit_depth = 8, compression = 0,
            filter_method = Some 0, interlace = Some 0, rgba = [0], idat_data = [9],
            palette = None\<rparr>"] f1 f2
  have a: "PngDecode (\<lambda>idat. Inr [0, 0]) (\<lambda>bits x. Inr x)
     (magic @ [0, 0, 0, 13, 73, 72, 68, 82, 0, 0, 0, 1, 0, 0, 0, 1, 8, 3, 0, 0, 0, 0, 0, 0, 0]
            @ [0, 0, 0, 1, 73, 68, 65, 84, 9, 0, 0, 0, 0]
            @ [0, 0, 0, 0, 73, 69, 78, 68, 0, 0, 0, 0])
     = Inl MissingPalette"
    by simp
  from missing_palette_after_parse[of "(\<lambda>idat. Inr [0, 0])" "(\<lambda>bits x. Inr x)"
      "(magic @ [0, 0, 0, 13, 73, 72, 68, 82, 0, 0, 0, 1, 0, 0, 0, 1, 8, 3, 0, 0, 0, 0, 0, 0, 0]
            @ [0, 0, 0, 1, 73, 68, 65, 84, 9, 0, 0, 0, 0]
            @ [0, 0, 0, 0, 73, 69, 78, 68, 0, 0, 0, 0]
            @ [0, 0, 0, 3, 80, 76, 84, 69, 1, 2, 3, 0, 0, 0, 0])"
      "\<lparr>w = 1, h = 1, color_type = 3, num_channels = 1, bit_depth = 8, compression = 0,
            filter_method = Some 0, interlace = Some 0, rgba = [0], idat_data = [9],
            palette = None\<rparr>"] f3 f4
  have b: "PngDecode (\<lambda>idat. Inr [0, 0]) (\<lambda>bits x. Inr x)
     (magic @ [0, 0, 0, 13, 73, 72, 68, 82, 0, 0, 0, 1, 0, 0, 0, 1, 8, 3, 0, 0, 0, 0, 0, 0, 0]
            @ [0, 0, 0, 1, 73, 68, 65, 84, 9, 0, 0, 0, 0]
            @ [0, 0, 0, 0, 73, 69, 78, 68, 0, 0, 0, 0]
            @ [0, 0, 0, 3, 80, 76, 84, 69, 1, 2, 3, 0, 0, 0, 0])
     = Inl MissingPalette"
    by simp
  from missing_palette_after_parse[of "(\<lambda>idat. Inr [0, 0])" "(\<lambda>bits x. Inr x)"
      "(magic @ [0, 0, 0, 13, 73, 72, 68, 82, 0, 0, 0, 1, 0, 0, 0, 1, 8, 3, 0, 0, 1, 0, 0, 0, 0])"
      init_state UnsupportedInterlace] f5
  have c: "PngDecode (\<lambda>idat. Inr [0, 0]) (\<lambda>bits x. Inr x)
     (magic @ [0, 0, 0, 13, 73, 72, 68, 82, 0, 0, 0, 1, 0, 0, 0, 1, 8, 3, 0, 0, 1, 0, 0, 0, 0])
     = Inl UnsupportedInterlace"
    by simp
  from f1 f2 f3 f4 f5 a b c show ?thesis by simp
qed

text \<open>
  C9, the claim as stated fails: a stream whose header declares colour type 3 and that
  has no \<^verbatim>\<open>PLTE\<close> chunk fails with another exception when the parse itself raises.
  The first stream declares the interlace method 1; the second has a well-formed
  header and \<^verbatim>\<open>IEND\<close> but no image data, and decompresses to nothing.
\<close>

theorem missing_palette_counterexample:
  "PngDecode (\<lambda>idat. Inr []) (\<lambda>bits x. Inr x)
     (magic @ [0, 0, 0, 13, 73, 72, 68, 82, 0, 0, 0, 1, 0, 0, 0, 1, 8, 3, 0, 0, 1, 0, 0, 0, 0])
     = Inl UnsupportedInterlace
   \<and> PngDecode (\<lambda>idat. Inr []) (\<lambda>bits x. Inr x)
     (magic @ [0, 0, 0, 13, 73, 72, 68, 82, 0, 0, 0, 1, 0, 0, 0, 1, 8, 3, 0, 0, 0, 0, 0, 0, 0]
            @ [0, 0, 0, 0, 73, 69, 78, 68, 0, 0, 0, 0])
     = Inl IndexError"
  by code_simp

text \<open>
  C10 (as amended). For every chunk record whose type identifier decodes as UTF-8: the
  payload is dispatched to a handler if and only if the identifier, upper-cased, is one
  of \<^verbatim>\<open>IHDR\<close>, \<^verbatim>\<open>PLTE\<close>, \<^verbatim>\<open>IDAT\<close>, \<^verbatim>\<open>IEND\<close>, and then to the handler of
  that name, so the lower-case and mixed-case variants of the four names are dispatched
  like the names themselves. Every record with any other identifier is skipped with no
  effect on the decoder: the read loop continues behind the record as if it were not
  there.
\<close>

theorem dispatch_upper_cased:
  assumes "utf8_valid bcht"
  shows "((\<exists>hnd. find_handler bcht = Inr (Some hnd)) = (map ascii_upper bcht \<in> set known_types))
       \<and> (map ascii_upper bcht = handler_name hnd
            \<longrightarrow> dispatch s bcht bchd = call_handler hnd s bchd)
       \<and> (map ascii_upper bcht \<notin> set known_types
            \<longrightarrow> dispatch s bcht bchd = Inr (Next s)
              \<and> (length blen = 4 \<and> from_bytes_big blen = int (length bchd)
                   \<and> length bcht = 4 \<and> length bcrc = 4
                   \<longrightarrow> parse_loop s (blen @ bcht @ bchd @ bcrc @ rest) = parse_loop s rest))"
proof -
  have A: "(\<exists>hnd. find_handler bcht = Inr (Some hnd)) = (map ascii_upper bcht \<in> set known_types)"
    using assms by (rule find_handler_iff)
  have B: "dispatch s bcht bchd = call_handler hnd s bchd"
    if "map ascii_upper bcht = handler_name hnd"
    using assms that by (rule dispatch_known)
  have C: "dispatch s bcht bchd = Inr (Next s)"
    if "map ascii_upper bcht \<notin> set known_types"
    using assms that by (rule dispatch_unknown)
  have D: "parse_loop s (blen @ bcht @ bchd @ bcrc @ rest) = parse_loop s rest"
    if "map ascii_upper bcht \<notin> set known_types"
      and "length blen = 4" "from_bytes_big blen = int (length bchd)"
      "length bcht = 4" "length bcrc = 4"
    using C[OF that(1)] read_chunk_record[OF that(2-5), of rest]
    by (subst parse_loop.simps) simp
  from A B C D show ?thesis by blast
qed

theorem dispatch_upper_cased_witness:
  "utf8_valid [116, 69, 88, 116]
   \<and> map ascii_upper [116, 69, 88, 116] \<notin> set known_types
   \<and> dispatch init_state [116, 69, 88, 116] [1, 2] = Inr (Next init_state)
   \<and> parse_loop init_state ([0, 0, 0, 2] @ [116, 69, 88, 116] @ [1, 2] @ [0, 0, 0, 0] @ [])
       = parse_loop init_state []
   \<and> utf8_valid [105, 100, 97, 116]
   \<and> map ascii_upper [105, 100, 97, 116] = handler_name H_IDAT
   \<and> dispatch init_state [105, 100, 97, 116] [1, 2] = call_handler H_IDAT init_state [1, 2]"
proof -
  have 1: "utf8_valid [116, 69, 88, 116]" by simp
  have 2: "map ascii_upper [116, 69, 88, 116] \<notin> set known_types"
    by (simp add: ascii_upper_def known_types_def handler_name_def)
  have 3: "length [0, 0, 0, 2 :: int] = 4 \<and> from_bytes_big [0, 0, 0, 2] = int (length [1, 2 :: int])
             \<and> length [116, 69, 88, 116 :: int] = 4 \<and> length [0, 0, 0, 0 :: int] = 4"
    by (simp add: from_bytes_big_def)
  have 4: "utf8_valid [105, 100, 97, 116]" by simp
  have 5: "map ascii_upper [105, 100, 97, 116] = handler_name H_IDAT"
    by (simp add: ascii_upper_def handler_name_def)
  from dispatch_upper_cased[OF 1, of H_IDAT init_state "[1, 2]" "[0, 0, 0, 2]" "[0, 0, 0, 0]" "[]"]
    2 3
  have a: "dispatch init_state [116, 69, 88, 116] [1, 2] = Inr (Next init_state)
       \<and> parse_loop init_state ([0, 0, 0, 2] @ [116, 69, 88, 116] @ [1, 2] @ [0, 0, 0, 0] @ [])
           = parse_loop init_state []"
    by blast
  from dispatch_upper_cased[OF 4, of H_IDAT init_state "[1, 2]" "[]" "[]" "[]"] 5
  have b: "dispatch init_state [105, 100, 97, 116] [1, 2] = call_handler H_IDAT init_state [1, 2]"
    by blast
  from 1 2 4 5 a b show ?thesis by blast
qed

text \<open>
  C10, the claim as stated fails: the identifier \<^verbatim>\<open>idat\<close> is none of the four names,
  yet its payload reaches the image-data handler and is appended to the compressed
  stream.
\<close>

theorem lower_case_chunk_counterexample:
  "handler_named [105, 100, 97, 116] = None
   \<and> dispatch init_state [105, 100, 97, 116] [1, 2]
       = Inr (Next (init_state\<lparr>idat_data := [1, 2]\<rparr>))"
  by (simp add: handler_named_def handler_name_def dispatch_def find_handler_def ascii_upper_def
      call_handler_def IDAT_def init_state_def)

end
